theory Spec2Isabelle
  imports Main "HOL-Library.Sublist"
begin

section \<open>Data model (types.ts)\<close>

text \<open>
  The interfaces of \<^verbatim>\<open>types.ts\<close> as records. An optional field \<^verbatim>\<open>f?: T\<close> is a
  \<open>T option\<close> (\<open>None\<close> is JavaScript's \<^verbatim>\<open>undefined\<close>). JavaScript numbers are
  modelled as \<open>int\<close>: the executor only passes them through, compares the step
  counter with the budget and prints them, and the command line reads the budget
  with \<^verbatim>\<open>parseInt\<close>. Strings are \<open>char list\<close>; the texts of the source that the
  model needs are ASCII. The fields of \<^verbatim>\<open>AgentParams\<close> carry the prefix \<open>param_\<close>
  (\<^verbatim>\<open>x\<close>, \<^verbatim>\<open>y\<close>, \<^verbatim>\<open>text\<close>, \<^verbatim>\<open>key\<close> ... would shadow variable names), and the fields
  of \<^verbatim>\<open>AgentContext\<close> that \<^verbatim>\<open>TaskConfig\<close> has as well carry \<open>ctx_\<close>. The fields
  \<^verbatim>\<open>needsUserInput\<close>, \<^verbatim>\<open>userInputPrompt\<close>, \<^verbatim>\<open>model\<close>, \<^verbatim>\<open>deviceId\<close> and \<^verbatim>\<open>iosDevice\<close>
  are read by no function modelled here and are left out.
\<close>

record AgentParams =
  param_x :: "int option"
  param_y :: "int option"
  param_text :: "string option"
  param_startX :: "int option"
  param_startY :: "int option"
  param_endX :: "int option"
  param_endY :: "int option"
  param_key :: "string option"
  param_url :: "string option"
  param_chars :: "int option"
  param_timeout :: "int option"
  param_appId :: "string option"

text \<open>
  \<^verbatim>\<open>action\<close> is a string, as it is at run time: the decision is the result of
  \<^verbatim>\<open>JSON.parse\<close>, and \<^verbatim>\<open>executeAction\<close> has a \<^verbatim>\<open>default\<close> branch for any other value.
\<close>

record AgentDecision =
  action :: string
  params :: "AgentParams option"
  reasoning :: string
  progress :: int

record ExecutionResult =
  success :: bool
  reason :: string
  steps :: int

record AgentContext =
  stepNumber :: int
  ctx_maxSteps :: int
  actionHistory :: "string list"
  ctx_successCriteria :: "string list option"
  ctx_constraints :: "string list option"

record TaskConfig =
  bundleId :: "string option"
  task :: string
  maxSteps :: int
  successCriteria :: "string list option"
  constraints :: "string list option"

text \<open>The object \<^verbatim>\<open>{}\<close> of \<^verbatim>\<open>decision.params || {}\<close>: every field absent.\<close>

definition empty_params :: AgentParams where
  "empty_params =
     \<lparr>param_x = None, param_y = None, param_text = None, param_startX = None,
      param_startY = None, param_endX = None, param_endY = None, param_key = None,
      param_url = None, param_chars = None, param_timeout = None, param_appId = None\<rparr>"

text \<open>The action kinds of the union type of \<^verbatim>\<open>AgentDecision.action\<close>, in its order.\<close>

definition action_vocabulary :: "string list" where
  "action_vocabulary =
     [''tap'', ''tapText'', ''doubleTap'', ''longPress'', ''inputText'', ''eraseText'',
      ''scroll'', ''swipe'', ''back'', ''hideKeyboard'', ''openLink'', ''pressKey'',
      ''wait'', ''launchApp'', ''stopApp'', ''done'', ''failed'']"

section \<open>JavaScript helpers\<close>

definition nl :: string where
  "nl = [CHR 0x0A]"

definition dq :: string where
  "dq = [CHR 0x22]"

text \<open>\<^verbatim>\<open>a ?? b\<close>: the default replaces an absent value only.\<close>

definition nullish :: "'a option \<Rightarrow> 'a \<Rightarrow> 'a" where
  "nullish v d = (case v of None \<Rightarrow> d | Some w \<Rightarrow> w)"

text \<open>Truthiness of an optional string: absent and the empty string are falsy.\<close>

definition truthy :: "string option \<Rightarrow> bool" where
  "truthy v = (case v of None \<Rightarrow> False | Some s \<Rightarrow> s \<noteq> [])"

definition digit_char :: "nat \<Rightarrow> char" where
  "digit_char d =
     (if d = 0 then CHR ''0'' else if d = 1 then CHR ''1'' else if d = 2 then CHR ''2''
      else if d = 3 then CHR ''3'' else if d = 4 then CHR ''4'' else if d = 5 then CHR ''5''
      else if d = 6 then CHR ''6'' else if d = 7 then CHR ''7'' else if d = 8 then CHR ''8''
      else CHR ''9'')"

fun string_of_nat :: "nat \<Rightarrow> string" where
  "string_of_nat n =
     (if n < 10 then [digit_char n] else string_of_nat (n div 10) @ [digit_char (n mod 10)])"

text \<open>A number inside a template literal (decimal digits, a minus sign when negative).\<close>

definition num_str :: "int \<Rightarrow> string" where
  "num_str i = (if i < 0 then ''-'' @ string_of_nat (nat (- i)) else string_of_nat (nat i))"

text \<open>An optional value inside a template literal: absent prints as \<^verbatim>\<open>undefined\<close>.\<close>

definition tmpl_num :: "int option \<Rightarrow> string" where
  "tmpl_num v = (case v of None \<Rightarrow> ''undefined'' | Some i \<Rightarrow> num_str i)"

definition tmpl_str :: "string option \<Rightarrow> string" where
  "tmpl_str v = (case v of None \<Rightarrow> ''undefined'' | Some s \<Rightarrow> s)"

text \<open>\<^verbatim>\<open>a.startsWith(p)\<close>.\<close>

definition startsWith :: "string \<Rightarrow> string \<Rightarrow> bool" where
  "startsWith a p = (take (length p) a = p)"

section \<open>The automation backend (maestro.ts)\<close>

text \<open>
  One constructor per method of \<^verbatim>\<open>MaestroClient\<close> that runs a flow through
  \<^verbatim>\<open>runFlow\<close>.
\<close>

datatype backend_call =
    Launch
  | LaunchApp string
  | StopApp string
  | Tap int int
  | TapText string
  | DoubleTap int int
  | LongPress int int
  | LongPressText string
  | InputText string
  | EraseText int
  | Scroll
  | Swipe int int int int
  | Back
  | HideKeyboard
  | OpenLink string
  | PressKey string
  | WaitForAnimation int
  | IosBackGesture

definition hasBundleId :: "string option \<Rightarrow> bool" where
  "hasBundleId b = truthy b"

definition buildYamlHeader :: "string option \<Rightarrow> string" where
  "buildYamlHeader b =
     (if truthy b then ''appId: '' @ tmpl_str b @ nl @ ''---'' @ nl else ''---'' @ nl)"

text \<open>\<^verbatim>\<open>text.replace(/"/g, '\\"')\<close>.\<close>

definition escapeQuotes :: "string \<Rightarrow> string" where
  "escapeQuotes t = concat (map (\<lambda>ch. if ch = CHR 0x22 then [CHR 0x5C, CHR 0x22] else [ch]) t)"

definition point_yaml :: "int \<Rightarrow> int \<Rightarrow> string" where
  "point_yaml px py = dq @ num_str px @ ''%, '' @ num_str py @ ''%'' @ dq"

text \<open>The flow document each method hands to \<^verbatim>\<open>runFlow\<close>; \<open>b\<close> is \<^verbatim>\<open>this.bundleId\<close>.\<close>

fun flow_yaml :: "string option \<Rightarrow> backend_call \<Rightarrow> string" where
  "flow_yaml b Launch = ''appId: '' @ tmpl_str b @ nl @ ''---'' @ nl @ ''- launchApp''"
| "flow_yaml b (LaunchApp appId) =
     buildYamlHeader b @ ''- launchApp:'' @ nl @ ''    appId: '' @ dq @ appId @ dq"
| "flow_yaml b (StopApp appId) =
     buildYamlHeader b @ ''- stopApp:'' @ nl @ ''    appId: '' @ dq @ appId @ dq"
| "flow_yaml b (Tap px py) =
     buildYamlHeader b @ ''- tapOn:'' @ nl @ ''    point: '' @ point_yaml px py"
| "flow_yaml b (TapText t) =
     buildYamlHeader b @ ''- tapOn:'' @ nl @ ''    text: '' @ dq @ escapeQuotes t @ dq"
| "flow_yaml b (DoubleTap px py) =
     buildYamlHeader b @ ''- doubleTapOn:'' @ nl @ ''    point: '' @ point_yaml px py"
| "flow_yaml b (LongPress px py) =
     buildYamlHeader b @ ''- longPressOn:'' @ nl @ ''    point: '' @ point_yaml px py"
| "flow_yaml b (LongPressText t) =
     buildYamlHeader b @ ''- longPressOn:'' @ nl @ ''    text: '' @ dq @ escapeQuotes t @ dq"
| "flow_yaml b (InputText t) =
     buildYamlHeader b @ ''- inputText: '' @ dq @ escapeQuotes t @ dq"
| "flow_yaml b (EraseText k) = buildYamlHeader b @ ''- eraseText: '' @ num_str k"
| "flow_yaml b Scroll = buildYamlHeader b @ ''- scroll''"
| "flow_yaml b (Swipe sx sy ex ey) =
     buildYamlHeader b @ ''- swipe:'' @ nl @ ''    start: '' @ point_yaml sx sy @ nl
       @ ''    end: '' @ point_yaml ex ey"
| "flow_yaml b Back = buildYamlHeader b @ ''- back''"
| "flow_yaml b HideKeyboard = buildYamlHeader b @ ''- hideKeyboard''"
| "flow_yaml b (OpenLink u) = buildYamlHeader b @ ''- openLink: '' @ u"
| "flow_yaml b (PressKey k) = buildYamlHeader b @ ''- pressKey: '' @ k"
| "flow_yaml b (WaitForAnimation t) =
     buildYamlHeader b @ ''- waitForAnimationToEnd:'' @ nl @ ''    timeout: '' @ num_str t"
| "flow_yaml b IosBackGesture =
     buildYamlHeader b @ ''- swipe:'' @ nl @ ''    start: '' @ dq @ ''1%, 50%'' @ dq @ nl
       @ ''    end: '' @ dq @ ''80%, 50%'' @ dq"

text \<open>
  \<^verbatim>\<open>runFlow\<close>: the flow is run by \<^verbatim>\<open>execSync\<close>, here the function \<open>exec\<close> from the
  flow document to \<open>None\<close> (exit 0) or \<open>Some out\<close>, a failure whose diagnostic
  \<^verbatim>\<open>stdout || stderr || message\<close> is \<open>out\<close>. The result is \<open>None\<close> when the method
  returns and \<open>Some m\<close> when it throws \<^verbatim>\<open>new Error(m)\<close>.
\<close>

definition runFlow :: "(string \<Rightarrow> string option) \<Rightarrow> string \<Rightarrow> string option" where
  "runFlow exec yaml =
     (case exec yaml of
        None \<Rightarrow> None
      | Some out \<Rightarrow>
          Some (''Maestro command failed: '' @ take 200 (if out = [] then ''Unknown error'' else out)))"

text \<open>\<^verbatim>\<open>launch()\<close> returns at once when there is no bundle id.\<close>

definition launch :: "(string \<Rightarrow> string option) \<Rightarrow> string option \<Rightarrow> string option" where
  "launch exec b = (if \<not> truthy b then None else runFlow exec (flow_yaml b Launch))"

section \<open>The stuck-pattern detector (agent.ts)\<close>

definition strong_hint :: "string \<Rightarrow> string" where
  \<open>strong_hint a =
     ''WARNING: You've tried "'' @ a @ ''" 3 times with no progress. The tap coordinates may be WRONG. Try:'' @ nl
     @ ''1. DIFFERENT coordinates (shift by 5-10%)'' @ nl
     @ ''2. tapText instead of tap (if there's visible text)'' @ nl
     @ ''3. scroll to reveal hidden elements'' @ nl
     @ ''4. A completely different approach''\<close>

definition mild_hint :: string where
  "mild_hint = ''NOTE: Multiple tap attempts detected. If tapping isn't working, the button might be at different coordinates than expected. Try adjusting by 5-10% or use tapText if visible text exists.''"

text \<open>
  \<^verbatim>\<open>history.slice(-3)\<close> is \<open>drop (length history - 3) history\<close>; \<^verbatim>\<open>lastThree[0]\<close> is read
  only when the history has three entries or more, so \<open>hd\<close> is applied to a non-empty list.
\<close>

definition detectStuckPattern :: "string list \<Rightarrow> string option" where
  "detectStuckPattern h =
     (if length h < 3 then None
      else
        (let lastThree = drop (length h - 3) h;
             allSame = list_all (\<lambda>a. a = hd lastThree) lastThree
         in if allSame then Some (strong_hint (hd lastThree))
            else
              (let tapPattern = filter (\<lambda>a. startsWith a ''tap('') lastThree
               in if length tapPattern \<ge> 2 then Some mild_hint else None)))"

section \<open>The decision oracle (agent.ts)\<close>

text \<open>
  What the loop can observe of the outside world. \<open>execSync n yaml\<close> is the outcome
  of running a flow document during loop step \<open>n\<close> (\<open>0\<close> is Init), as in
  \<open>runFlow\<close>. \<open>takeScreenshot n\<close> is the outcome of \<^verbatim>\<open>maestro.screenshot(n)\<close>:
  \<open>Inr\<close> the encoded image, \<open>Inl\<close> the message of the error it throws. \<open>generate\<close>
  stands for the model call of \<^verbatim>\<open>TaskAgent.decide\<close> together with the extraction and
  parsing of its JSON answer: given the task and the context (from which the system
  prompt is built), the image and the text of the user message, it is \<open>Inr\<close> the parsed
  decision or \<open>Inl\<close> the message of the error thrown. Within one run every step number
  occurs in one call at most, so a function of these arguments covers any behaviour
  of the collaborators, their internal state included.
\<close>

record environment =
  execSync :: "int \<Rightarrow> string \<Rightarrow> string option"
  takeScreenshot :: "int \<Rightarrow> string + string"
  generate :: "string \<Rightarrow> AgentContext \<Rightarrow> string \<Rightarrow> string \<Rightarrow> string + AgentDecision"

definition user_text :: "string option \<Rightarrow> string" where
  "user_text stuckWarning =
     (case stuckWarning of
        Some w \<Rightarrow> w @ nl @ nl @ ''Analyze the screenshot. What DIFFERENT action should you try?''
      | None \<Rightarrow> ''Analyze the screenshot. What is the ONE best action to progress toward the task goal?'')"

definition decide :: "environment \<Rightarrow> string \<Rightarrow> string \<Rightarrow> AgentContext \<Rightarrow> string + AgentDecision" where
  "decide e shot tsk ctx =
     generate e tsk ctx shot (user_text (detectStuckPattern (actionHistory ctx)))"

section \<open>The action translator (executor.ts)\<close>

text \<open>
  What a run does, in order: the calls of backend methods, the captures, the calls of
  the oracle, the pauses and the lines printed on the paths the properties below are
  about. The spinner texts, the banner and the colours are not modelled.
\<close>

datatype event =
    Sleep nat
  | Call backend_call
  | LaunchFailed
  | Capture int
  | CaptureFailed string
  | Decide AgentContext
  | DecisionFailed string
  | Shown AgentDecision
  | UnknownAction string
  | ActionFailed string
  | TaskCompleted
  | TaskFailed string
  | MaxStepsReached

text \<open>
  A backend method called by the translator: the call is recorded and the result is
  the one of \<open>runFlow\<close> on its flow document.
\<close>

definition invoke :: "(string \<Rightarrow> string option) \<Rightarrow> string option \<Rightarrow> backend_call \<Rightarrow> event list \<times> string option" where
  "invoke exec b c = ([Call c], runFlow exec (flow_yaml b c))"

text \<open>
  \<^verbatim>\<open>executeAction\<close>: the events of the call and \<open>None\<close> when it returns, \<open>Some m\<close>
  when it throws an error of message \<open>m\<close>. Under the guards \<^verbatim>\<open>if (params.text)\<close> and
  \<^verbatim>\<open>if (params.appId)\<close> the value is present and \<open>nullish\<close> reads it.
\<close>

definition executeAction :: "(string \<Rightarrow> string option) \<Rightarrow> string option \<Rightarrow> AgentDecision \<Rightarrow> event list \<times> string option" where
  "executeAction exec b d =
     (let p = (case params d of None \<Rightarrow> empty_params | Some q \<Rightarrow> q); a = action d in
      if a = ''tap'' then invoke exec b (Tap (nullish (param_x p) 50) (nullish (param_y p) 50))
      else if a = ''tapText'' then invoke exec b (TapText (nullish (param_text p) []))
      else if a = ''doubleTap'' then
        invoke exec b (DoubleTap (nullish (param_x p) 50) (nullish (param_y p) 50))
      else if a = ''longPress'' then
        (if truthy (param_text p) then invoke exec b (LongPressText (nullish (param_text p) []))
         else invoke exec b (LongPress (nullish (param_x p) 50) (nullish (param_y p) 50)))
      else if a = ''inputText'' then invoke exec b (InputText (nullish (param_text p) []))
      else if a = ''eraseText'' then invoke exec b (EraseText (nullish (param_chars p) 50))
      else if a = ''scroll'' then invoke exec b Scroll
      else if a = ''swipe'' then
        invoke exec b (Swipe (nullish (param_startX p) 50) (nullish (param_startY p) 50)
                             (nullish (param_endX p) 50) (nullish (param_endY p) 20))
      else if a = ''back'' then
        (case runFlow exec (flow_yaml b Back) of
           None \<Rightarrow> ([Call Back], None)
         | Some m \<Rightarrow> ([Call Back, Call IosBackGesture], runFlow exec (flow_yaml b IosBackGesture)))
      else if a = ''hideKeyboard'' then invoke exec b HideKeyboard
      else if a = ''openLink'' then invoke exec b (OpenLink (nullish (param_url p) []))
      else if a = ''pressKey'' then invoke exec b (PressKey (nullish (param_key p) ''enter''))
      else if a = ''wait'' then invoke exec b (WaitForAnimation (nullish (param_timeout p) 3000))
      else if a = ''launchApp'' then
        (if truthy (param_appId p) then invoke exec b (LaunchApp (nullish (param_appId p) []))
         else ([], None))
      else if a = ''stopApp'' then
        (if truthy (param_appId p) then invoke exec b (StopApp (nullish (param_appId p) []))
         else ([], None))
      else ([UnknownAction a], None))"

text \<open>The cases of the \<^verbatim>\<open>switch\<close> of \<^verbatim>\<open>executeAction\<close>, in its order.\<close>

definition translator_kinds :: "string list" where
  "translator_kinds =
     [''tap'', ''tapText'', ''doubleTap'', ''longPress'', ''inputText'', ''eraseText'',
      ''scroll'', ''swipe'', ''back'', ''hideKeyboard'', ''openLink'', ''pressKey'',
      ''wait'', ''launchApp'', ''stopApp'']"

text \<open>\<^verbatim>\<open>formatAction\<close>; \<^verbatim>\<open>params.text?.slice(0, 20)\<close> is \<^verbatim>\<open>undefined\<close> for an absent text.\<close>

definition formatAction :: "AgentDecision \<Rightarrow> string" where
  \<open>formatAction d =
     (case params d of
        None \<Rightarrow> action d
      | Some p \<Rightarrow>
          (let a = action d in
           if a = ''tap'' \<or> a = ''doubleTap'' \<or> a = ''longPress'' then
             a @ ''('' @ tmpl_num (param_x p) @ '','' @ tmpl_num (param_y p) @ '')''
           else if a = ''tapText'' \<or> a = ''inputText'' then
             a @ ''("'' @ tmpl_str (map_option (take 20) (param_text p)) @ ''")''
           else if a = ''swipe'' then
             ''swipe('' @ tmpl_num (param_startX p) @ '','' @ tmpl_num (param_startY p) @ ''->''
               @ tmpl_num (param_endX p) @ '','' @ tmpl_num (param_endY p) @ '')''
           else if a = ''launchApp'' \<or> a = ''stopApp'' then
             a @ ''("'' @ tmpl_str (param_appId p) @ ''")''
           else a))\<close>

section \<open>The control loop (executor.ts)\<close>

text \<open>
  One pass through the body of the \<^verbatim>\<open>while\<close> loop, after \<^verbatim>\<open>steps++\<close>: \<open>n\<close> is the
  incremented counter and \<open>hist\<close> is \<^verbatim>\<open>actionHistory\<close>. \<open>Continue\<close> carries the history
  the next iteration starts from (both \<^verbatim>\<open>continue\<close> statements and the end of the
  body), \<open>Return\<close> the value of a \<^verbatim>\<open>return\<close> statement; both carry the events of
  this pass.
\<close>

datatype outcome =
    Continue "string list" "event list"
  | Return ExecutionResult "event list"

text \<open>The context object handed to \<^verbatim>\<open>agent.decide\<close> in step \<open>n\<close>.\<close>

definition context_of :: "TaskConfig \<Rightarrow> int \<Rightarrow> string list \<Rightarrow> AgentContext" where
  "context_of c n hist =
     \<lparr>stepNumber = n, ctx_maxSteps = maxSteps c, actionHistory = hist,
      ctx_successCriteria = successCriteria c, ctx_constraints = constraints c\<rparr>"

definition body :: "environment \<Rightarrow> TaskConfig \<Rightarrow> int \<Rightarrow> string list \<Rightarrow> outcome" where
  "body e c n hist =
     (case takeScreenshot e n of
        Inl m \<Rightarrow> Continue hist [Capture n, CaptureFailed m, Sleep 2000]
      | Inr shot \<Rightarrow>
          (let ctx = context_of c n hist
           in case decide e shot (task c) ctx of
                Inl m \<Rightarrow> Continue hist [Capture n, Decide ctx, DecisionFailed m, Sleep 2000]
              | Inr d \<Rightarrow>
                  if action d = ''done'' then
                    Return \<lparr>success = True, reason = reasoning d, steps = n\<rparr>
                      [Capture n, Decide ctx, Shown d, TaskCompleted]
                  else if action d = ''failed'' then
                    Return \<lparr>success = False, reason = reasoning d, steps = n\<rparr>
                      [Capture n, Decide ctx, Shown d, TaskFailed (reasoning d)]
                  else
                    (case executeAction (execSync e n) (bundleId c) d of
                       (evs, None) \<Rightarrow>
                         Continue (hist @ [formatAction d])
                           ([Capture n, Decide ctx, Shown d] @ evs @ [Sleep 1500])
                     | (evs, Some m) \<Rightarrow>
                         Continue (hist @ [''error''])
                           ([Capture n, Decide ctx, Shown d] @ evs @ [ActionFailed m, Sleep 1500]))))"

text \<open>What a run leaves: the value \<^verbatim>\<open>execute\<close> returns, the history and the events.\<close>

record run =
  result :: ExecutionResult
  history :: "string list"
  trace :: "event list"

text \<open>
  The \<^verbatim>\<open>while\<close> loop, entered with the counter \<open>n\<close>, the history \<open>hist\<close> and the
  events \<open>evs\<close> so far. \<^verbatim>\<open>steps++\<close> is the \<open>n + 1\<close> handed to the body and to the
  next iteration.
\<close>

function loop :: "environment \<Rightarrow> TaskConfig \<Rightarrow> int \<Rightarrow> string list \<Rightarrow> event list \<Rightarrow> run" where
  "loop e c n hist evs =
     (if n < maxSteps c then
        (case body e c (n + 1) hist of
           Continue hist' new \<Rightarrow> loop e c (n + 1) hist' (evs @ new)
         | Return r new \<Rightarrow> \<lparr>result = r, history = hist, trace = evs @ new\<rparr>)
      else
        \<lparr>result = \<lparr>success = False, reason = ''Timeout - max steps exceeded'', steps = n\<rparr>,
         history = hist, trace = evs @ [MaxStepsReached]\<rparr>)"
  by pat_completeness auto
termination
  by (relation "measure (\<lambda>(e, c, n, hist, evs). nat (maxSteps c - n))") auto

declare loop.simps [simp del]

definition execute :: "environment \<Rightarrow> TaskConfig \<Rightarrow> run" where
  "execute e c =
     (if hasBundleId (bundleId c) then
        (case launch (execSync e 0) (bundleId c) of
           None \<Rightarrow> loop e c 0 [''launched''] [Call Launch, Sleep 3000]
         | Some m \<Rightarrow>
             \<lparr>result = \<lparr>success = False, reason = m, steps = 0\<rparr>, history = [],
              trace = [Call Launch, LaunchFailed]\<rparr>)
      else loop e c 0 [''ready''] [Sleep 1000])"

section \<open>Reading a run\<close>

text \<open>The events of one pass through the loop body.\<close>

definition outcome_events :: "outcome \<Rightarrow> event list" where
  "outcome_events out = (case out of Continue h new \<Rightarrow> new | Return r new \<Rightarrow> new)"

text \<open>The step indices handed to \<^verbatim>\<open>maestro.screenshot\<close>, in order: one per iteration.\<close>

definition captures :: "event list \<Rightarrow> int list" where
  "captures evs = concat (map (\<lambda>ev. case ev of Capture k \<Rightarrow> [k] | _ \<Rightarrow> []) evs)"

text \<open>The calls that reach the automation backend: its methods and the captures.\<close>

definition is_backend :: "event \<Rightarrow> bool" where
  "is_backend ev = (case ev of Call cl \<Rightarrow> True | Capture k \<Rightarrow> True | _ \<Rightarrow> False)"

definition backend_calls :: "event list \<Rightarrow> event list" where
  "backend_calls evs = filter is_backend evs"

definition capture_failures :: "event list \<Rightarrow> nat" where
  "capture_failures evs =
     length (filter (\<lambda>ev. case ev of CaptureFailed m \<Rightarrow> True | _ \<Rightarrow> False) evs)"

definition decision_failures :: "event list \<Rightarrow> nat" where
  "decision_failures evs =
     length (filter (\<lambda>ev. case ev of DecisionFailed m \<Rightarrow> True | _ \<Rightarrow> False) evs)"

text \<open>The decisions of kind \<^verbatim>\<open>done\<close> or \<^verbatim>\<open>failed\<close> that the loop received.\<close>

definition is_terminal :: "event \<Rightarrow> bool" where
  "is_terminal ev =
     (case ev of Shown d \<Rightarrow> action d = ''done'' \<or> action d = ''failed'' | _ \<Rightarrow> False)"

definition terminal_decisions :: "event list \<Rightarrow> nat" where
  "terminal_decisions evs = length (filter is_terminal evs)"

text \<open>The first capture of a sequence of events, if there is one.\<close>

fun next_capture :: "event list \<Rightarrow> int option" where
  "next_capture [] = None"
| "next_capture (ev # rest) = (case ev of Capture k \<Rightarrow> Some k | _ \<Rightarrow> next_capture rest)"

text \<open>
  Every failed capture that is followed by another capture, as the pair of the step
  index of the failed capture and the step index of the capture that follows it.
\<close>

fun retry_pairs :: "event list \<Rightarrow> (int \<times> int) list" where
  "retry_pairs (Capture i # CaptureFailed m # rest) =
     (case next_capture rest of None \<Rightarrow> [] | Some k \<Rightarrow> [(i, k)]) @ retry_pairs rest"
| "retry_pairs (ev # rest) = retry_pairs rest"
| "retry_pairs [] = []"

text \<open>Every capture that follows a failed capture carries the step index of the failed one.\<close>

definition same_index_retries :: "event list \<Rightarrow> bool" where
  "same_index_retries evs = list_all (\<lambda>(i, k). k = i) (retry_pairs evs)"

text \<open>Two decisions that differ in \<^verbatim>\<open>reasoning\<close> and \<^verbatim>\<open>progress\<close> at most.\<close>

definition same_intent :: "AgentDecision \<Rightarrow> AgentDecision \<Rightarrow> bool" where
  "same_intent d d' = (action d = action d' \<and> params d = params d')"

text \<open>
  Two answers of the oracle that differ in \<^verbatim>\<open>reasoning\<close> and \<^verbatim>\<open>progress\<close> at most:
  the same error, or two such decisions.
\<close>

definition same_answer :: "string + AgentDecision \<Rightarrow> string + AgentDecision \<Rightarrow> bool" where
  "same_answer r r' =
     (case r of
        Inl m \<Rightarrow> r' = Inl m
      | Inr d \<Rightarrow> (case r' of Inl m' \<Rightarrow> False | Inr d' \<Rightarrow> same_intent d d'))"

text \<open>The fixed result of an exhausted budget, for the counter \<open>n\<close>.\<close>

definition timeout_result :: "int \<Rightarrow> ExecutionResult" where
  "timeout_result n = \<lparr>success = False, reason = ''Timeout - max steps exceeded'', steps = n\<rparr>"

text \<open>The launch of Init is attempted and throws.\<close>

definition launch_fails :: "environment \<Rightarrow> TaskConfig \<Rightarrow> bool" where
  "launch_fails e c = (hasBundleId (bundleId c) \<and> launch (execSync e 0) (bundleId c) \<noteq> None)"

section \<open>Scripted collaborators\<close>

text \<open>
  An environment given by three scripts: the outcome of each flow, of each capture,
  and the answer of the oracle as a function of the step number.
\<close>

definition scripted :: "(int \<Rightarrow> string \<Rightarrow> string option) \<Rightarrow> (int \<Rightarrow> string + string) \<Rightarrow> (int \<Rightarrow> string + AgentDecision) \<Rightarrow> environment" where
  "scripted ex sh dec =
     \<lparr>execSync = ex, takeScreenshot = sh, generate = (\<lambda>tsk ctx shot u. dec (stepNumber ctx))\<rparr>"

definition config_of :: "string option \<Rightarrow> int \<Rightarrow> TaskConfig" where
  "config_of b k =
     \<lparr>bundleId = b, task = ''tap button'', maxSteps = k, successCriteria = None,
      constraints = None\<rparr>"

definition intent :: "string \<Rightarrow> AgentParams option \<Rightarrow> AgentDecision" where
  "intent a p = \<lparr>action = a, params = p, reasoning = ''because'', progress = 50\<rparr>"

definition flows_ok :: "int \<Rightarrow> string \<Rightarrow> string option" where
  "flows_ok n yaml = None"

definition shots_ok :: "int \<Rightarrow> string + string" where
  "shots_ok n = Inr ''iVBORw0KGgo=''"

text \<open>The oracle always answers \<^verbatim>\<open>scroll\<close>.\<close>

definition env_scroll :: environment where
  "env_scroll = scripted flows_ok shots_ok (\<lambda>n. Inr (intent ''scroll'' None))"

text \<open>The oracle answers a tap at (80,80) in step 1 and \<^verbatim>\<open>done\<close> afterwards.\<close>

definition env_tap_done :: environment where
  "env_tap_done =
     scripted flows_ok shots_ok
       (\<lambda>n. if n = 1
            then Inr (intent ''tap'' (Some (empty_params\<lparr>param_x := Some 80, param_y := Some 80\<rparr>)))
            else Inr (intent ''done'' None))"

text \<open>The capture of step 1 fails, every later one succeeds.\<close>

definition env_capture_fails_once :: environment where
  "env_capture_fails_once =
     scripted flows_ok
       (\<lambda>n. if n = 1 then Inl ''Screenshot failed: device offline'' else shots_ok n)
       (\<lambda>n. Inr (intent ''scroll'' None))"

text \<open>Every flow fails; the oracle asks for \<^verbatim>\<open>back\<close>.\<close>

definition env_flows_fail :: environment where
  "env_flows_fail =
     scripted (\<lambda>n yaml. Some ''exit 1'') shots_ok (\<lambda>n. Inr (intent ''back'' None))"

text \<open>The flow of \<^verbatim>\<open>back\<close> fails (as on iOS), every other flow succeeds.\<close>

definition back_unsupported :: "string \<Rightarrow> string option" where
  "back_unsupported yaml =
     (if yaml = flow_yaml None Back then Some ''back is not supported on iOS'' else None)"

text \<open>The oracle answers a tap without \<^verbatim>\<open>params\<close>.\<close>

definition env_bare_tap :: environment where
  "env_bare_tap = scripted flows_ok shots_ok (\<lambda>n. Inr (intent ''tap'' None))"

text \<open>The oracle answers with a kind outside the vocabulary.\<close>

definition env_unknown_kind :: environment where
  "env_unknown_kind = scripted flows_ok shots_ok (\<lambda>n. Inr (intent ''pinch'' None))"

text \<open>The oracle of \<open>env_tap_done\<close> with another rationale and progress estimate.\<close>

definition env_tap_done_reworded :: environment where
  "env_tap_done_reworded =
     scripted flows_ok shots_ok
       (\<lambda>n. if n = 1
            then Inr ((intent ''tap'' (Some (empty_params\<lparr>param_x := Some 80, param_y := Some 80\<rparr>)))
                       \<lparr>reasoning := ''the button is at the lower right'', progress := 5\<rparr>)
            else Inr ((intent ''done'' None)\<lparr>reasoning := ''the note is saved'', progress := 100\<rparr>))"

section \<open>The stuck-pattern detector\<close>

lemma strong_hint_names:
  "\<exists>s. strong_hint a = ''WARNING: You've tried '' @ dq @ a @ dq @ '' 3 times'' @ s"
  by (simp add: strong_hint_def dq_def)

lemma strong_hint_sublists:
  "sublist (dq @ a @ dq) (strong_hint a) \<and> sublist ''3 times'' (strong_hint a)"
proof -
  obtain s where s: "strong_hint a = ''WARNING: You've tried '' @ dq @ a @ dq @ '' 3 times'' @ s"
    using strong_hint_names by blast
  have "strong_hint a = ''WARNING: You've tried '' @ (dq @ a @ dq) @ ('' 3 times'' @ s)"
    using s by simp
  then have quoted: "sublist (dq @ a @ dq) (strong_hint a)"
    unfolding sublist_def by blast
  have "strong_hint a = (''WARNING: You've tried '' @ dq @ a @ dq @ '' '') @ ''3 times'' @ s"
    using s by simp
  then have times: "sublist ''3 times'' (strong_hint a)"
    unfolding sublist_def by blast
  from quoted times show ?thesis by simp
qed

lemma detect_window: "detectStuckPattern h = detectStuckPattern (drop (length h - 3) h)"
  by (simp add: detectStuckPattern_def Let_def)

lemma detect_short: "length h < 3 \<Longrightarrow> detectStuckPattern h = None"
  by (simp add: detectStuckPattern_def)

lemma detect_tail:
  "detectStuckPattern (pre @ [a, b, c]) =
     (if a = b \<and> b = c then Some (strong_hint c)
      else if 2 \<le> length (filter (\<lambda>s. startsWith s ''tap('') [a, b, c]) then Some mild_hint
      else None)"
  by (auto simp: detectStuckPattern_def Let_def)

text \<open>The three examples of the detector in the specification's list of properties.\<close>

lemma detect_examples:
  "detectStuckPattern [''tap(50,50)'', ''tap(50,50)'', ''tap(50,50)'']
     = Some (strong_hint ''tap(50,50)'')"
  "detectStuckPattern [''tap(10,10)'', ''scroll'', ''tap(20,20)''] = Some mild_hint"
  \<open>detectStuckPattern [''scroll'', ''inputText("a")'', ''hideKeyboard''] = None\<close>
  by (simp_all add: detectStuckPattern_def startsWith_def)

text \<open>
  Claim C4. The detector reads the last three entries of the history only: its answer
  on a history is its answer on the last three entries. It answers nothing on a
  history of fewer than three entries. On a history that ends with \<open>a\<close>, \<open>b\<close>, \<open>c\<close>
  it answers the strong hint when the three are the same string; otherwise the mild
  hint when two of them or all three start with \<^verbatim>\<open>tap(\<close>; otherwise nothing. The
  strong hint contains the repeated entry between double quotes and the words
  \<^verbatim>\<open>3 times\<close>.
\<close>

theorem C4_detectStuckPattern:
  "detectStuckPattern h = detectStuckPattern (drop (length h - 3) h)
   \<and> (length h < 3 \<longrightarrow> detectStuckPattern h = None)
   \<and> detectStuckPattern (pre @ [a, b, c]) =
       (if a = b \<and> b = c then Some (strong_hint c)
        else if 2 \<le> length (filter (\<lambda>s. startsWith s ''tap('') [a, b, c]) then Some mild_hint
        else None)
   \<and> sublist (dq @ c @ dq) (strong_hint c) \<and> sublist ''3 times'' (strong_hint c)"
  using detect_window [of h] detect_short [of h] detect_tail [of pre a b c]
    strong_hint_sublists [of c]
  by blast

theorem C4_detectStuckPattern_witness:
  "length [''ready'', ''scroll''] < 3
   \<and> detectStuckPattern [''ready'', ''scroll''] = None
   \<and> detectStuckPattern [''ready'', ''tap(50,50)'', ''tap(50,50)'', ''tap(50,50)'']
       = Some (strong_hint ''tap(50,50)'')
   \<and> sublist (dq @ ''tap(50,50)'' @ dq) (strong_hint ''tap(50,50)'')
   \<and> sublist ''3 times'' (strong_hint ''tap(50,50)'')"
proof -
  have short: "length [''ready'', ''scroll''] < 3"
    by simp
  show ?thesis
    using short
      C4_detectStuckPattern [of "[''ready'', ''scroll'']" "[''ready'']" "''tap(50,50)''"
        "''tap(50,50)''" "''tap(50,50)''"]
    by simp
qed

section \<open>The action translator\<close>


section \<open>The control loop: one pass and the whole run\<close>

lemma loop_exit: "\<not> n < maxSteps c \<Longrightarrow>
  loop e c n hist evs = \<lparr>result = timeout_result n, history = hist, trace = evs @ [MaxStepsReached]\<rparr>"
  by (simp add: loop.simps [of e c n] timeout_result_def)

lemma loop_Continue: "n < maxSteps c \<Longrightarrow> body e c (n + 1) hist = Continue h' new \<Longrightarrow>
  loop e c n hist evs = loop e c (n + 1) h' (evs @ new)"
  by (simp add: loop.simps [of e c n])

lemma loop_Return: "n < maxSteps c \<Longrightarrow> body e c (n + 1) hist = Return r new \<Longrightarrow>
  loop e c n hist evs = \<lparr>result = r, history = hist, trace = evs @ new\<rparr>"
  by (simp add: loop.simps [of e c n])

lemma loop_rule:
  assumes init: "I n hist evs"
    and cont: "\<And>n hist evs h' new. I n hist evs \<Longrightarrow> n < maxSteps c \<Longrightarrow>
                 body e c (n + 1) hist = Continue h' new \<Longrightarrow> I (n + 1) h' (evs @ new)"
    and ret: "\<And>n hist evs r new. I n hist evs \<Longrightarrow> n < maxSteps c \<Longrightarrow>
                 body e c (n + 1) hist = Return r new \<Longrightarrow>
                 Q \<lparr>result = r, history = hist, trace = evs @ new\<rparr>"
    and exit: "\<And>n hist evs. I n hist evs \<Longrightarrow> \<not> n < maxSteps c \<Longrightarrow>
                 Q \<lparr>result = timeout_result n, history = hist, trace = evs @ [MaxStepsReached]\<rparr>"
  shows "Q (loop e c n hist evs)"
  using init
proof (induction "nat (maxSteps c - n)" arbitrary: n hist evs)
  case 0
  then have stop: "\<not> n < maxSteps c" by simp
  show ?case using exit [OF "0.prems" stop] loop_exit [OF stop] by simp
next
  case (Suc k)
  then have go: "n < maxSteps c" by simp
  show ?case
  proof (cases "body e c (n + 1) hist")
    case (Continue h' new)
    have "k = nat (maxSteps c - (n + 1))" using Suc.hyps(2) by simp
    then have "Q (loop e c (n + 1) h' (evs @ new))"
      using Suc.hyps(1) cont [OF Suc.prems go Continue] by blast
    then show ?thesis using loop_Continue [OF go Continue] by simp
  next
    case (Return r new)
    show ?thesis using ret [OF Suc.prems go Return] loop_Return [OF go Return] by simp
  qed
qed

lemma dispatch_events:
  "ev \<in> set (fst (executeAction exec b d)) \<Longrightarrow> (\<exists>cl. ev = Call cl) \<or> ev = UnknownAction (action d)"
  by (auto simp: executeAction_def invoke_def Let_def split: if_splits option.splits)

lemma body_cases:
  obtains
    (capture_failed) m where "takeScreenshot e n = Inl m"
      "body e c n hist = Continue hist [Capture n, CaptureFailed m, Sleep 2000]"
  | (decision_failed) shot m where "takeScreenshot e n = Inr shot"
      "decide e shot (task c) (context_of c n hist) = Inl m"
      "body e c n hist =
         Continue hist [Capture n, Decide (context_of c n hist), DecisionFailed m, Sleep 2000]"
  | (decided_done) shot d where "takeScreenshot e n = Inr shot"
      "decide e shot (task c) (context_of c n hist) = Inr d" "action d = ''done''"
      "body e c n hist =
         Return \<lparr>success = True, reason = reasoning d, steps = n\<rparr>
           [Capture n, Decide (context_of c n hist), Shown d, TaskCompleted]"
  | (decided_failed) shot d where "takeScreenshot e n = Inr shot"
      "decide e shot (task c) (context_of c n hist) = Inr d" "action d = ''failed''"
      "body e c n hist =
         Return \<lparr>success = False, reason = reasoning d, steps = n\<rparr>
           [Capture n, Decide (context_of c n hist), Shown d, TaskFailed (reasoning d)]"
  | (dispatched) shot d cs where "takeScreenshot e n = Inr shot"
      "decide e shot (task c) (context_of c n hist) = Inr d"
      "action d \<noteq> ''done''" "action d \<noteq> ''failed''"
      "executeAction (execSync e n) (bundleId c) d = (cs, None)"
      "body e c n hist =
         Continue (hist @ [formatAction d])
           ([Capture n, Decide (context_of c n hist), Shown d] @ cs @ [Sleep 1500])"
  | (dispatch_failed) shot d cs m where "takeScreenshot e n = Inr shot"
      "decide e shot (task c) (context_of c n hist) = Inr d"
      "action d \<noteq> ''done''" "action d \<noteq> ''failed''"
      "executeAction (execSync e n) (bundleId c) d = (cs, Some m)"
      "body e c n hist =
         Continue (hist @ [''error''])
           ([Capture n, Decide (context_of c n hist), Shown d] @ cs @ [ActionFailed m, Sleep 1500])"
proof (cases "takeScreenshot e n")
  case (Inl m)
  then show thesis using capture_failed by (simp add: body_def)
next
  case shot: (Inr shot)
  show thesis
  proof (cases "decide e shot (task c) (context_of c n hist)")
    case (Inl m)
    then show thesis using shot decision_failed by (simp add: body_def)
  next
    case dec: (Inr d)
    show thesis
    proof (cases "action d = ''done''")
      case True
      then show thesis using shot dec decided_done by (simp add: body_def)
    next
      case nd: False
      show thesis
      proof (cases "action d = ''failed''")
        case True
        then show thesis using shot dec decided_failed by (simp add: body_def)
      next
        case nf: False
        obtain cs res where ex: "executeAction (execSync e n) (bundleId c) d = (cs, res)"
          by (cases "executeAction (execSync e n) (bundleId c) d")
        show thesis
        proof (cases res)
          case None
          then show thesis using shot dec nd nf ex dispatched by (simp add: body_def)
        next
          case (Some m)
          then show thesis using shot dec nd nf ex dispatch_failed by (simp add: body_def)
        qed
      qed
    qed
  qed
qed


lemma captures_simps:
  "captures [] = []"
  "captures (ev # evs) = (case ev of Capture k \<Rightarrow> [k] | _ \<Rightarrow> []) @ captures evs"
  "captures (xs @ ys) = captures xs @ captures ys"
  by (simp_all add: captures_def)

lemma capture_failures_simps:
  "capture_failures [] = 0"
  "capture_failures (ev # evs) =
     (case ev of CaptureFailed m \<Rightarrow> 1 | _ \<Rightarrow> 0) + capture_failures evs"
  "capture_failures (xs @ ys) = capture_failures xs + capture_failures ys"
  by (simp_all add: capture_failures_def split: event.splits)

lemma decision_failures_simps:
  "decision_failures [] = 0"
  "decision_failures (ev # evs) =
     (case ev of DecisionFailed m \<Rightarrow> 1 | _ \<Rightarrow> 0) + decision_failures evs"
  "decision_failures (xs @ ys) = decision_failures xs + decision_failures ys"
  by (simp_all add: decision_failures_def split: event.splits)

lemma terminal_decisions_simps:
  "terminal_decisions [] = 0"
  "terminal_decisions (ev # evs) = (if is_terminal ev then 1 else 0) + terminal_decisions evs"
  "terminal_decisions (xs @ ys) = terminal_decisions xs + terminal_decisions ys"
  by (simp_all add: terminal_decisions_def)

lemmas count_simps =
  captures_simps capture_failures_simps decision_failures_simps terminal_decisions_simps

lemma dispatch_counts:
  "captures (fst (executeAction exec b d)) = []"
  "capture_failures (fst (executeAction exec b d)) = 0"
  "decision_failures (fst (executeAction exec b d)) = 0"
  "terminal_decisions (fst (executeAction exec b d)) = 0"
  by (auto simp: captures_def capture_failures_def decision_failures_def terminal_decisions_def
      is_terminal_def filter_empty_conv dest!: dispatch_events)

text \<open>What one pass through the body adds to the counts.\<close>

lemma body_Continue_counts:
  assumes "body e c k hist = Continue h' new"
  shows "captures new = [k] \<and> terminal_decisions new = 0 \<and> length hist \<le> length h'
    \<and> length h' + capture_failures new + decision_failures new = length hist + 1"
proof (cases rule: body_cases [of e k c hist])
  case (capture_failed m)
  then show ?thesis using assms by (auto simp: count_simps is_terminal_def)
next
  case (decision_failed shot m)
  then show ?thesis using assms by (auto simp: count_simps is_terminal_def)
next
  case (decided_done shot d)
  then show ?thesis using assms by simp
next
  case (decided_failed shot d)
  then show ?thesis using assms by simp
next
  case (dispatched shot d cs)
  have cs: "cs = fst (executeAction (execSync e k) (bundleId c) d)"
    using dispatched(5) by simp
  have "\<not> is_terminal (Shown d)"
    using dispatched(3,4) by (simp add: is_terminal_def)
  then show ?thesis
    using assms dispatched(6) dispatch_counts [of "execSync e k" "bundleId c" d] cs
    by (auto simp: count_simps is_terminal_def)
next
  case (dispatch_failed shot d cs m)
  have cs: "cs = fst (executeAction (execSync e k) (bundleId c) d)"
    using dispatch_failed(5) by simp
  have "\<not> is_terminal (Shown d)"
    using dispatch_failed(3,4) by (simp add: is_terminal_def)
  then show ?thesis
    using assms dispatch_failed(6) dispatch_counts [of "execSync e k" "bundleId c" d] cs
    by (auto simp: count_simps is_terminal_def)
qed

lemma body_Return_counts:
  assumes "body e c k hist = Return r new"
  shows "captures new = [k] \<and> terminal_decisions new = 1 \<and> capture_failures new = 0
    \<and> decision_failures new = 0 \<and> steps r = k"
  by (cases rule: body_cases [of e k c hist])
    (use assms in \<open>auto simp: count_simps is_terminal_def\<close>)


lemma loop_accounting:
  assumes start: "0 \<le> n \<and> n \<le> max 0 (maxSteps c) \<and> captures evs = [1..n]
      \<and> terminal_decisions evs = 0 \<and> 1 \<le> length hist
      \<and> int (length hist) + int (capture_failures evs) + int (decision_failures evs) = n + 1"
  shows "(\<lambda>r. 0 \<le> steps (result r) \<and> steps (result r) \<le> max 0 (maxSteps c)
      \<and> (0 < maxSteps c \<longrightarrow> 0 < steps (result r))
      \<and> captures (trace r) = [1..steps (result r)]
      \<and> terminal_decisions (trace r) \<le> 1
      \<and> (terminal_decisions (trace r) = 0 \<longrightarrow> result r = timeout_result (max 0 (maxSteps c)))
      \<and> 1 \<le> length (history r)
      \<and> int (length (history r)) + int (capture_failures (trace r))
          + int (decision_failures (trace r)) + int (terminal_decisions (trace r))
          = steps (result r) + 1)
    (loop e c n hist evs)"
proof (rule loop_rule [where I = "\<lambda>n hist evs. 0 \<le> n \<and> n \<le> max 0 (maxSteps c)
      \<and> captures evs = [1..n] \<and> terminal_decisions evs = 0 \<and> 1 \<le> length hist
      \<and> int (length hist) + int (capture_failures evs) + int (decision_failures evs) = n + 1"],
    goal_cases)
  case 1
  show ?case using start .
next
  case (2 n hist evs h' new)
  have "[1..n + 1] = [1..n] @ [n + 1]"
    using 2(1) upto_rec2 [of 1 "n + 1"] by simp
  then show ?case
    using 2(1,2) body_Continue_counts [OF 2(3)] by (simp add: count_simps)
next
  case (3 n hist evs r new)
  have "[1..n + 1] = [1..n] @ [n + 1]"
    using 3(1) upto_rec2 [of 1 "n + 1"] by simp
  then show ?case
    using 3(1,2) body_Return_counts [OF 3(3)] by (simp add: count_simps)
next
  case (4 n hist evs)
  then show ?case
    by (auto simp: count_simps timeout_result_def is_terminal_def)
qed

lemma execute_launch_failed:
  assumes "launch_fails e c"
  shows "\<exists>m. launch (execSync e 0) (bundleId c) = Some m
    \<and> execute e c = \<lparr>result = \<lparr>success = False, reason = m, steps = 0\<rparr>, history = [],
                     trace = [Call Launch, LaunchFailed]\<rparr>"
  using assms by (auto simp: launch_fails_def execute_def)

lemma execute_enters_loop:
  assumes "\<not> launch_fails e c"
  shows "execute e c = loop e c 0 [''launched''] [Call Launch, Sleep 3000]
    \<or> execute e c = loop e c 0 [''ready''] [Sleep 1000]"
  using assms by (auto simp: launch_fails_def execute_def)

lemma length_tl_int: "1 \<le> length h \<Longrightarrow> int (length (tl h)) = int (length h) - 1"
  by (cases h) simp_all

lemma execute_entered:
  assumes "\<not> launch_fails e c"
  shows "0 \<le> steps (result (execute e c)) \<and> steps (result (execute e c)) \<le> max 0 (maxSteps c)
      \<and> (0 < maxSteps c \<longrightarrow> 0 < steps (result (execute e c)))
      \<and> captures (trace (execute e c)) = [1..steps (result (execute e c))]
      \<and> terminal_decisions (trace (execute e c)) \<le> 1
      \<and> (terminal_decisions (trace (execute e c)) = 0 \<longrightarrow>
           result (execute e c) = timeout_result (max 0 (maxSteps c)))
      \<and> 1 \<le> length (history (execute e c))
      \<and> int (length (history (execute e c))) + int (capture_failures (trace (execute e c)))
          + int (decision_failures (trace (execute e c)))
          + int (terminal_decisions (trace (execute e c)))
          = steps (result (execute e c)) + 1"
proof -
  have launched: "0 \<le> (0::int) \<and> 0 \<le> max 0 (maxSteps c)
      \<and> captures [Call Launch, Sleep 3000] = [1..0]
      \<and> terminal_decisions [Call Launch, Sleep 3000] = 0 \<and> 1 \<le> length [''launched'']
      \<and> int (length [''launched'']) + int (capture_failures [Call Launch, Sleep 3000])
          + int (decision_failures [Call Launch, Sleep 3000]) = 0 + 1"
    by (simp add: count_simps is_terminal_def)
  have ready: "0 \<le> (0::int) \<and> 0 \<le> max 0 (maxSteps c) \<and> captures [Sleep 1000] = [1..0]
      \<and> terminal_decisions [Sleep 1000] = 0 \<and> 1 \<le> length [''ready'']
      \<and> int (length [''ready'']) + int (capture_failures [Sleep 1000])
          + int (decision_failures [Sleep 1000]) = 0 + 1"
    by (simp add: count_simps is_terminal_def)
  from execute_enters_loop [OF assms] show ?thesis
  proof
    assume "execute e c = loop e c 0 [''launched''] [Call Launch, Sleep 3000]"
    then show ?thesis using loop_accounting [OF launched, of e] by simp
  next
    assume "execute e c = loop e c 0 [''ready''] [Sleep 1000]"
    then show ?thesis using loop_accounting [OF ready, of e] by simp
  qed
qed

section \<open>Step accounting\<close>

lemmas run_eval =
  execute_def loop.simps body_def decide_def context_of_def executeAction_def invoke_def
  runFlow_def launch_def launch_fails_def formatAction_def hasBundleId_def truthy_def
  scripted_def config_of_def intent_def flows_ok_def shots_ok_def empty_params_def nullish_def
  tmpl_num_def tmpl_str_def num_str_def digit_char_def

text \<open>
  Claim C1, as stated, fails for a budget that is not positive, which \<^verbatim>\<open>execute\<close> accepts
  (the command line hands it the result of \<^verbatim>\<open>parseInt\<close> unchecked). The condition of the
  \<^verbatim>\<open>while\<close> loop is false at once and the body never runs. With a budget of 0 the run
  returns the timeout result with \<^verbatim>\<open>steps = 0\<close> although no launch failed; with a budget
  of -3 it returns \<^verbatim>\<open>steps = 0\<close> as well, which is neither at most \<^verbatim>\<open>maxSteps\<close> nor equal
  to it.
\<close>

theorem C1_counterexample:
  "result (execute env_scroll (config_of None 0))
     = \<lparr>success = False, reason = ''Timeout - max steps exceeded'', steps = 0\<rparr>
   \<and> \<not> launch_fails env_scroll (config_of None 0)
   \<and> result (execute env_scroll (config_of None (- 3)))
       = \<lparr>success = False, reason = ''Timeout - max steps exceeded'', steps = 0\<rparr>
   \<and> \<not> launch_fails env_scroll (config_of None (- 3))
   \<and> \<not> steps (result (execute env_scroll (config_of None (- 3))))
         \<le> maxSteps (config_of None (- 3))"
  by (simp add: env_scroll_def run_eval)

text \<open>
  Claim C1, amended. For every run with a positive step budget:
  the \<^verbatim>\<open>steps\<close> of the result lies between 0 and \<^verbatim>\<open>maxSteps\<close>; it is 0 exactly when the
  launch of Init failed; the step numbers handed to the captures, one per iteration,
  are 1, 2, ... up to the \<^verbatim>\<open>steps\<close> of the result, so the counter grows by one per
  iteration; and a run that entered the loop and received no decision of kind
  \<^verbatim>\<open>done\<close> or \<^verbatim>\<open>failed\<close> ends with \<^verbatim>\<open>success = false\<close>, the fixed timeout reason and
  \<^verbatim>\<open>steps = maxSteps\<close>.
\<close>

theorem C1_step_accounting:
  assumes "0 < maxSteps c"
  shows "0 \<le> steps (result (execute e c)) \<and> steps (result (execute e c)) \<le> maxSteps c
    \<and> (steps (result (execute e c)) = 0 \<longleftrightarrow> launch_fails e c)
    \<and> captures (trace (execute e c)) = [1..steps (result (execute e c))]
    \<and> (\<not> launch_fails e c \<longrightarrow> terminal_decisions (trace (execute e c)) = 0 \<longrightarrow>
         result (execute e c) =
           \<lparr>success = False, reason = ''Timeout - max steps exceeded'', steps = maxSteps c\<rparr>)"
proof (cases "launch_fails e c")
  case True
  then show ?thesis
    using assms execute_launch_failed [OF True] by (auto simp: count_simps)
next
  case False
  then show ?thesis
    using assms execute_entered [OF False] by (auto simp: timeout_result_def)
qed

theorem C1_step_accounting_witness:
  "0 < maxSteps (config_of None 5)
   \<and> \<not> launch_fails env_scroll (config_of None 5)
   \<and> terminal_decisions (trace (execute env_scroll (config_of None 5))) = 0
   \<and> result (execute env_scroll (config_of None 5)) =
       \<lparr>success = False, reason = ''Timeout - max steps exceeded'', steps = 5\<rparr>
   \<and> captures (trace (execute env_scroll (config_of None 5))) = [1, 2, 3, 4, 5]
   \<and> 0 < maxSteps (config_of (Some ''com.example.notes'') 5)
   \<and> launch_fails env_flows_fail (config_of (Some ''com.example.notes'') 5)
   \<and> steps (result (execute env_flows_fail (config_of (Some ''com.example.notes'') 5))) = 0"
proof -
  have launch_budget: "0 < maxSteps (config_of (Some ''com.example.notes'') 5)"
    by (simp add: config_of_def)
  have fatal: "launch_fails env_flows_fail (config_of (Some ''com.example.notes'') 5)"
    by (simp add: env_flows_fail_def run_eval)
  have zero: "steps (result (execute env_flows_fail (config_of (Some ''com.example.notes'') 5))) = 0"
    using C1_step_accounting [OF launch_budget, of env_flows_fail] fatal by blast
  have budget: "0 < maxSteps (config_of None 5)"
    by (simp add: config_of_def)
  have entered: "\<not> launch_fails env_scroll (config_of None 5)"
    by (simp add: run_eval)
  have none: "terminal_decisions (trace (execute env_scroll (config_of None 5))) = 0"
    by (simp add: env_scroll_def run_eval count_simps is_terminal_def)
  have "result (execute env_scroll (config_of None 5)) =
       \<lparr>success = False, reason = ''Timeout - max steps exceeded'',
        steps = maxSteps (config_of None 5)\<rparr>"
    using C1_step_accounting [OF budget, of env_scroll] entered none by blast
  then have res: "result (execute env_scroll (config_of None 5)) =
       \<lparr>success = False, reason = ''Timeout - max steps exceeded'', steps = 5\<rparr>"
    by (simp add: config_of_def)
  have "captures (trace (execute env_scroll (config_of None 5))) = [1..5]"
    using C1_step_accounting [OF budget, of env_scroll] res by simp
  moreover have "[1..5] = [1, 2, 3, 4, 5::int]"
    by (simp add: upto.simps)
  ultimately show ?thesis
    using budget entered none res launch_budget fatal zero by simp
qed

text \<open>
  Claim C3, as stated, fails on the end-to-end scenario of the specification (a tap in
  step 1, \<^verbatim>\<open>done\<close> in step 2): the run ends with \<^verbatim>\<open>steps = 2\<close> and no failure of a
  capture or of a decision, and one entry follows the \<^verbatim>\<open>ready\<close> marker. The step of the
  \<^verbatim>\<open>done\<close> decision is counted and appends nothing.
\<close>

theorem C3_counterexample:
  "history (execute env_tap_done (config_of None 3)) = [''ready'', ''tap(80,80)'']
   \<and> steps (result (execute env_tap_done (config_of None 3))) = 2
   \<and> capture_failures (trace (execute env_tap_done (config_of None 3))) = 0
   \<and> decision_failures (trace (execute env_tap_done (config_of None 3))) = 0
   \<and> int (length (tl (history (execute env_tap_done (config_of None 3)))))
       \<noteq> steps (result (execute env_tap_done (config_of None 3)))
           - int (capture_failures (trace (execute env_tap_done (config_of None 3))))
           - int (decision_failures (trace (execute env_tap_done (config_of None 3))))"
  by (simp add: env_tap_done_def run_eval count_simps)

text \<open>
  Claim C3, amended. At loop exit the number of history entries after the initial marker
  is the \<^verbatim>\<open>steps\<close> of the result minus the failed captures, minus the failed decisions
  and minus the decisions of kind \<^verbatim>\<open>done\<close> or \<^verbatim>\<open>failed\<close> received (one at most); so
  it never exceeds \<^verbatim>\<open>steps\<close>. Pass by pass: a pass through the body that continues
  never shortens the history, and it appends one entry or else records one failed
  capture or one failed decision; a pass that returns records the terminal decision and
  no failure.
\<close>

theorem C3_history_accounting:
  "int (length (tl (history (execute e c))))
     = steps (result (execute e c)) - int (capture_failures (trace (execute e c)))
       - int (decision_failures (trace (execute e c)))
       - int (terminal_decisions (trace (execute e c)))
   \<and> terminal_decisions (trace (execute e c)) \<le> 1
   \<and> int (length (tl (history (execute e c)))) \<le> steps (result (execute e c))
   \<and> (body e c k hist = Continue h' new \<longrightarrow>
        length hist \<le> length h'
        \<and> length h' + capture_failures new + decision_failures new = length hist + 1
        \<and> terminal_decisions new = 0)
   \<and> (body e c k hist = Return r new \<longrightarrow>
        steps r = k \<and> terminal_decisions new = 1 \<and> capture_failures new = 0
        \<and> decision_failures new = 0)"
proof -
  have run: "int (length (tl (history (execute e c))))
     = steps (result (execute e c)) - int (capture_failures (trace (execute e c)))
       - int (decision_failures (trace (execute e c)))
       - int (terminal_decisions (trace (execute e c)))
   \<and> terminal_decisions (trace (execute e c)) \<le> 1"
  proof (cases "launch_fails e c")
    case True
    then show ?thesis
      using execute_launch_failed [OF True] by (auto simp: count_simps is_terminal_def)
  next
    case False
    then show ?thesis
      using execute_entered [OF False] length_tl_int [of "history (execute e c)"] by simp
  qed
  then have "int (length (tl (history (execute e c)))) \<le> steps (result (execute e c))"
    by linarith
  then show ?thesis
    using run body_Continue_counts [of e c k hist h' new] body_Return_counts [of e c k hist r new]
    by simp
qed

theorem C3_history_accounting_witness:
  "body env_tap_done (config_of None 3) 1 [''ready'']
     = Continue [''ready'', ''tap(80,80)'']
         [Capture 1, Decide (context_of (config_of None 3) 1 [''ready'']),
          Shown (intent ''tap'' (Some (empty_params\<lparr>param_x := Some 80, param_y := Some 80\<rparr>))),
          Call (Tap 80 80), Sleep 1500]
   \<and> length [''ready'', ''tap(80,80)''] + capture_failures
         [Capture 1, Decide (context_of (config_of None 3) 1 [''ready'']),
          Shown (intent ''tap'' (Some (empty_params\<lparr>param_x := Some 80, param_y := Some 80\<rparr>))),
          Call (Tap 80 80), Sleep 1500]
       + decision_failures
         [Capture 1, Decide (context_of (config_of None 3) 1 [''ready'']),
          Shown (intent ''tap'' (Some (empty_params\<lparr>param_x := Some 80, param_y := Some 80\<rparr>))),
          Call (Tap 80 80), Sleep 1500]
       = length [''ready''] + 1
   \<and> body env_tap_done (config_of None 3) 2 [''ready'', ''tap(80,80)'']
       = Return \<lparr>success = True, reason = ''because'', steps = 2\<rparr>
           [Capture 2, Decide (context_of (config_of None 3) 2 [''ready'', ''tap(80,80)'']),
            Shown (intent ''done'' None), TaskCompleted]
   \<and> terminal_decisions
         [Capture 2, Decide (context_of (config_of None 3) 2 [''ready'', ''tap(80,80)'']),
          Shown (intent ''done'' None), TaskCompleted] = 1"
proof -
  have pass1: "body env_tap_done (config_of None 3) 1 [''ready'']
     = Continue [''ready'', ''tap(80,80)'']
         [Capture 1, Decide (context_of (config_of None 3) 1 [''ready'']),
          Shown (intent ''tap'' (Some (empty_params\<lparr>param_x := Some 80, param_y := Some 80\<rparr>))),
          Call (Tap 80 80), Sleep 1500]"
    by (simp add: env_tap_done_def run_eval)
  have pass2: "body env_tap_done (config_of None 3) 2 [''ready'', ''tap(80,80)'']
       = Return \<lparr>success = True, reason = ''because'', steps = 2\<rparr>
           [Capture 2, Decide (context_of (config_of None 3) 2 [''ready'', ''tap(80,80)'']),
            Shown (intent ''done'' None), TaskCompleted]"
    by (simp add: env_tap_done_def run_eval)
  show ?thesis
    using pass1 pass2
      C3_history_accounting [where e = env_tap_done and c = "config_of None 3" and k = 1
        and hist = "[''ready'']" and h' = "[''ready'', ''tap(80,80)'']"
        and new = "[Capture 1, Decide (context_of (config_of None 3) 1 [''ready'']),
          Shown (intent ''tap'' (Some (empty_params\<lparr>param_x := Some 80, param_y := Some 80\<rparr>))),
          Call (Tap 80 80), Sleep 1500]"]
      C3_history_accounting [where e = env_tap_done and c = "config_of None 3" and k = 2
        and hist = "[''ready'', ''tap(80,80)'']"
        and r = "\<lparr>success = True, reason = ''because'', steps = 2\<rparr>"
        and new = "[Capture 2, Decide (context_of (config_of None 3) 2 [''ready'', ''tap(80,80)'']),
            Shown (intent ''done'' None), TaskCompleted]"]
    by simp
qed

section \<open>Failures of a single action\<close>

lemma body_dispatch_failed:
  assumes "takeScreenshot e k = Inr shot" "decide e shot (task c) (context_of c k hist) = Inr d"
    "action d \<noteq> ''done''" "action d \<noteq> ''failed''"
    "executeAction (execSync e k) (bundleId c) d = (cs, Some m)"
  shows "body e c k hist =
     Continue (hist @ [''error''])
       ([Capture k, Decide (context_of c k hist), Shown d] @ cs @ [ActionFailed m, Sleep 1500])"
  using assms by (simp add: body_def)

lemma body_dispatched:
  assumes "takeScreenshot e k = Inr shot" "decide e shot (task c) (context_of c k hist) = Inr d"
    "action d \<noteq> ''done''" "action d \<noteq> ''failed''"
    "executeAction (execSync e k) (bundleId c) d = (cs, None)"
  shows "body e c k hist =
     Continue (hist @ [formatAction d])
       ([Capture k, Decide (context_of c k hist), Shown d] @ cs @ [Sleep 1500])"
  using assms by (simp add: body_def)

lemma body_capture_failed:
  assumes "takeScreenshot e k = Inl m"
  shows "body e c k hist = Continue hist [Capture k, CaptureFailed m, Sleep 2000]"
  using assms by (simp add: body_def)

text \<open>
  Claim C6. When the translator throws for an action that is neither \<^verbatim>\<open>done\<close> nor
  \<^verbatim>\<open>failed\<close>, the loop prints the warning, appends \<^verbatim>\<open>error\<close> to the history, pauses
  1500 ms and goes on with the next iteration: the run from this state is the run
  from the next counter with the longer history. A run that ends without a \<^verbatim>\<open>done\<close> or
  \<^verbatim>\<open>failed\<close> decision and before the budget is used up is a run whose launch failed; and
  a failed launch ends the run with \<^verbatim>\<open>success = false\<close>, \<^verbatim>\<open>steps = 0\<close> and the message of
  the launch error. \<open>execute\<close> is a total function: every error of the backend and of
  the oracle is a case of the model that the loop handles, and none is passed on.
\<close>

theorem C6_dispatch_failure_not_fatal:
  "(n < maxSteps c \<longrightarrow> takeScreenshot e (n + 1) = Inr shot \<longrightarrow>
      decide e shot (task c) (context_of c (n + 1) hist) = Inr d \<longrightarrow>
      action d \<noteq> ''done'' \<longrightarrow> action d \<noteq> ''failed'' \<longrightarrow>
      executeAction (execSync e (n + 1)) (bundleId c) d = (cs, Some m) \<longrightarrow>
      loop e c n hist evs =
        loop e c (n + 1) (hist @ [''error''])
          (evs @ [Capture (n + 1), Decide (context_of c (n + 1) hist), Shown d] @ cs
             @ [ActionFailed m, Sleep 1500]))
   \<and> (terminal_decisions (trace (execute e c)) = 0 \<longrightarrow>
        steps (result (execute e c)) < maxSteps c \<longrightarrow> launch_fails e c)
   \<and> (launch_fails e c \<longrightarrow>
        (\<exists>msg. launch (execSync e 0) (bundleId c) = Some msg
           \<and> execute e c =
               \<lparr>result = \<lparr>success = False, reason = msg, steps = 0\<rparr>, history = [],
                trace = [Call Launch, LaunchFailed]\<rparr>))"
proof -
  have early: "launch_fails e c"
    if "terminal_decisions (trace (execute e c)) = 0" "steps (result (execute e c)) < maxSteps c"
  proof (rule ccontr)
    assume entered: "\<not> launch_fails e c"
    then have "result (execute e c) = timeout_result (max 0 (maxSteps c))"
      using execute_entered [OF entered] that(1) by blast
    then show False
      using that(2) by (simp add: timeout_result_def)
  qed
  show ?thesis
    using early execute_launch_failed [of e c] body_dispatch_failed [of e "n + 1" shot c hist d cs m]
      loop_Continue [of n c e hist]
    by auto
qed


theorem C6_dispatch_failure_not_fatal_witness:
  "loop env_flows_fail (config_of None 2) 0 [''ready''] [Sleep 1000]
     = loop env_flows_fail (config_of None 2) 1 [''ready'', ''error'']
         [Sleep 1000, Capture 1, Decide (context_of (config_of None 2) 1 [''ready'']),
          Shown (intent ''back'' None), Call Back, Call IosBackGesture,
          ActionFailed ''Maestro command failed: exit 1'', Sleep 1500]
   \<and> history (execute env_flows_fail (config_of None 2)) = [''ready'', ''error'', ''error'']
   \<and> result (execute env_flows_fail (config_of None 2))
       = \<lparr>success = False, reason = ''Timeout - max steps exceeded'', steps = 2\<rparr>
   \<and> launch_fails env_flows_fail (config_of (Some ''com.example.notes'') 2)
   \<and> execute env_flows_fail (config_of (Some ''com.example.notes'') 2)
       = \<lparr>result = \<lparr>success = False, reason = ''Maestro command failed: exit 1'', steps = 0\<rparr>,
          history = [], trace = [Call Launch, LaunchFailed]\<rparr>"
proof -
  have budget: "0 < maxSteps (config_of None 2)"
    by (simp add: config_of_def)
  have shot: "takeScreenshot env_flows_fail (0 + 1) = Inr ''iVBORw0KGgo=''"
    by (simp add: env_flows_fail_def scripted_def shots_ok_def)
  have dec: "decide env_flows_fail ''iVBORw0KGgo='' (task (config_of None 2))
      (context_of (config_of None 2) (0 + 1) [''ready'']) = Inr (intent ''back'' None)"
    by (simp add: env_flows_fail_def scripted_def decide_def)
  have kind: "action (intent ''back'' None) \<noteq> ''done''" "action (intent ''back'' None) \<noteq> ''failed''"
    by (simp_all add: intent_def)
  have disp: "executeAction (execSync env_flows_fail (0 + 1)) (bundleId (config_of None 2))
      (intent ''back'' None)
      = ([Call Back, Call IosBackGesture], Some ''Maestro command failed: exit 1'')"
    by (simp add: env_flows_fail_def run_eval)
  have fatal: "launch_fails env_flows_fail (config_of (Some ''com.example.notes'') 2)"
    by (simp add: env_flows_fail_def run_eval)
  have msg: "launch (execSync env_flows_fail 0) (bundleId (config_of (Some ''com.example.notes'') 2))
      = Some ''Maestro command failed: exit 1''"
    by (simp add: env_flows_fail_def run_eval)
  have run: "history (execute env_flows_fail (config_of None 2)) = [''ready'', ''error'', ''error'']
   \<and> result (execute env_flows_fail (config_of None 2))
       = \<lparr>success = False, reason = ''Timeout - max steps exceeded'', steps = 2\<rparr>"
    by (simp add: env_flows_fail_def run_eval)
  show ?thesis
    using budget shot dec kind disp fatal msg run
      C6_dispatch_failure_not_fatal [where e = env_flows_fail and c = "config_of None 2"
        and n = 0 and hist = "[''ready'']" and evs = "[Sleep 1000]"
        and shot = "''iVBORw0KGgo=''" and d = "intent ''back'' None"
        and cs = "[Call Back, Call IosBackGesture]" and m = "''Maestro command failed: exit 1''"]
      C6_dispatch_failure_not_fatal [where e = env_flows_fail
        and c = "config_of (Some ''com.example.notes'') 2"]
    by simp
qed

section \<open>Capture failures\<close>

lemma trace_extends: "prefix evs (trace (loop e c n hist evs))"
proof (rule loop_rule [where I = "\<lambda>n hist evs'. prefix evs evs'"], goal_cases)
  case 1
  show ?case by simp
next
  case (2 n hist evs' h' new)
  then show ?case by (simp add: prefix_def) (metis append.assoc)
next
  case (3 n hist evs' r new)
  then show ?case by (simp add: prefix_def) (metis append.assoc)
next
  case (4 n hist evs')
  then show ?case by (simp add: prefix_def) (metis append.assoc)
qed

lemma trace_first_pass:
  assumes "n < maxSteps c"
  shows "prefix (evs @ outcome_events (body e c (n + 1) hist)) (trace (loop e c n hist evs))"
proof (cases "body e c (n + 1) hist")
  case (Continue h' new)
  then show ?thesis
    using loop_Continue [OF assms Continue, of evs] trace_extends [of "evs @ new" e c "n + 1" h']
    by (simp add: outcome_events_def)
next
  case (Return r new)
  then show ?thesis
    using loop_Return [OF assms Return, of evs] by (simp add: outcome_events_def)
qed

lemma body_starts_with_capture:
  "prefix [Capture k] (outcome_events (body e c k hist))"
  by (cases rule: body_cases [of e k c hist]) (simp_all add: outcome_events_def)

lemma body_then_decides:
  assumes "takeScreenshot e k = Inr shot"
  shows "prefix [Capture k, Decide (context_of c k hist)] (outcome_events (body e c k hist))"
  by (cases rule: body_cases [of e k c hist]) (use assms in \<open>simp_all add: outcome_events_def\<close>)


text \<open>
  Claim C2, as stated, fails: with the capture of step 1 failing and a budget of 2,
  the captures of the run carry the step numbers 1 and 2. The capture that follows the
  failed one is made with the next step index, not with the same one.
\<close>

theorem C2_counterexample:
  "takeScreenshot env_capture_fails_once 1 = Inl ''Screenshot failed: device offline''
   \<and> captures (trace (execute env_capture_fails_once (config_of None 2))) = [1, 2]
   \<and> retry_pairs (trace (execute env_capture_fails_once (config_of None 2))) = [(1, 2)]
   \<and> \<not> same_index_retries (trace (execute env_capture_fails_once (config_of None 2)))"
  by (simp add: env_capture_fails_once_def run_eval count_simps same_index_retries_def)

text \<open>
  Claim C2, amended. When the capture of step \<open>n + 1\<close> fails, the pass prints the
  warning, pauses 2000 ms and leaves the history as it is, and the loop goes on from the
  counter \<open>n + 1\<close>. If the budget allows another iteration, its capture is made with
  the step index \<open>n + 2\<close>, and when that capture succeeds the oracle is asked with the
  step number \<open>n + 2\<close> and the unchanged history. If the budget is used up, the run
  ends with the timeout result and \<open>steps = n + 1\<close>: the failed capture counted.
\<close>

theorem C2_capture_failure:
  "takeScreenshot e (n + 1) = Inl m \<longrightarrow> n < maxSteps c \<longrightarrow>
     body e c (n + 1) hist = Continue hist [Capture (n + 1), CaptureFailed m, Sleep 2000]
     \<and> loop e c n hist evs
         = loop e c (n + 1) hist (evs @ [Capture (n + 1), CaptureFailed m, Sleep 2000])
     \<and> (n + 1 < maxSteps c \<longrightarrow>
          prefix (evs @ [Capture (n + 1), CaptureFailed m, Sleep 2000, Capture (n + 2)])
            (trace (loop e c n hist evs)))
     \<and> (n + 1 < maxSteps c \<longrightarrow> takeScreenshot e (n + 2) = Inr shot \<longrightarrow>
          prefix (evs @ [Capture (n + 1), CaptureFailed m, Sleep 2000, Capture (n + 2),
                         Decide (context_of c (n + 2) hist)])
            (trace (loop e c n hist evs)))
     \<and> (\<not> n + 1 < maxSteps c \<longrightarrow>
          loop e c n hist evs =
            \<lparr>result = \<lparr>success = False, reason = ''Timeout - max steps exceeded'', steps = n + 1\<rparr>,
             history = hist,
             trace = evs @ [Capture (n + 1), CaptureFailed m, Sleep 2000, MaxStepsReached]\<rparr>)"
proof (intro impI)
  assume failed: "takeScreenshot e (n + 1) = Inl m" and budget: "n < maxSteps c"
  let ?evs = "evs @ [Capture (n + 1), CaptureFailed m, Sleep 2000]"
  have pass: "body e c (n + 1) hist = Continue hist [Capture (n + 1), CaptureFailed m, Sleep 2000]"
    using body_capture_failed [OF failed] .
  have next_pass: "loop e c n hist evs = loop e c (n + 1) hist ?evs"
    using loop_Continue [OF budget pass] .
  have retry: "prefix (?evs @ [Capture (n + 2)]) (trace (loop e c n hist evs))"
    if more: "n + 1 < maxSteps c"
  proof -
    have "prefix (?evs @ [Capture (n + 1 + 1)]) (?evs @ outcome_events (body e c (n + 1 + 1) hist))"
      using body_starts_with_capture [of "n + 1 + 1" e c hist] by simp
    then have "prefix (?evs @ [Capture (n + 1 + 1)]) (trace (loop e c (n + 1) hist ?evs))"
      using trace_first_pass [OF more, of ?evs e hist] prefix_order.trans by blast
    then show ?thesis using next_pass by (simp add: add.assoc)
  qed
  have retry_context:
    "prefix (?evs @ [Capture (n + 2), Decide (context_of c (n + 2) hist)])
       (trace (loop e c n hist evs))"
    if more: "n + 1 < maxSteps c" and shot: "takeScreenshot e (n + 2) = Inr shot"
  proof -
    have "takeScreenshot e (n + 1 + 1) = Inr shot"
      using shot by (simp add: add.assoc)
    then have "prefix (?evs @ [Capture (n + 1 + 1), Decide (context_of c (n + 1 + 1) hist)])
        (?evs @ outcome_events (body e c (n + 1 + 1) hist))"
      using body_then_decides [of e "n + 1 + 1" shot c hist] by simp
    then have "prefix (?evs @ [Capture (n + 1 + 1), Decide (context_of c (n + 1 + 1) hist)])
        (trace (loop e c (n + 1) hist ?evs))"
      using trace_first_pass [OF more, of ?evs e hist] prefix_order.trans by blast
    then show ?thesis using next_pass by (simp add: add.assoc)
  qed
  have exhausted: "loop e c n hist evs =
      \<lparr>result = \<lparr>success = False, reason = ''Timeout - max steps exceeded'', steps = n + 1\<rparr>,
       history = hist, trace = ?evs @ [MaxStepsReached]\<rparr>"
    if "\<not> n + 1 < maxSteps c"
    using next_pass loop_exit [OF that, of e hist ?evs] by (simp add: timeout_result_def)
  show "body e c (n + 1) hist = Continue hist [Capture (n + 1), CaptureFailed m, Sleep 2000]
     \<and> loop e c n hist evs
         = loop e c (n + 1) hist (evs @ [Capture (n + 1), CaptureFailed m, Sleep 2000])
     \<and> (n + 1 < maxSteps c \<longrightarrow>
          prefix (evs @ [Capture (n + 1), CaptureFailed m, Sleep 2000, Capture (n + 2)])
            (trace (loop e c n hist evs)))
     \<and> (n + 1 < maxSteps c \<longrightarrow> takeScreenshot e (n + 2) = Inr shot \<longrightarrow>
          prefix (evs @ [Capture (n + 1), CaptureFailed m, Sleep 2000, Capture (n + 2),
                         Decide (context_of c (n + 2) hist)])
            (trace (loop e c n hist evs)))
     \<and> (\<not> n + 1 < maxSteps c \<longrightarrow>
          loop e c n hist evs =
            \<lparr>result = \<lparr>success = False, reason = ''Timeout - max steps exceeded'', steps = n + 1\<rparr>,
             history = hist,
             trace = evs @ [Capture (n + 1), CaptureFailed m, Sleep 2000, MaxStepsReached]\<rparr>)"
    using pass next_pass retry retry_context exhausted by simp
qed

theorem C2_capture_failure_witness:
  "takeScreenshot env_capture_fails_once (0 + 1) = Inl ''Screenshot failed: device offline''
   \<and> 0 < maxSteps (config_of None 2) \<and> 0 + 1 < maxSteps (config_of None 2)
   \<and> takeScreenshot env_capture_fails_once (0 + 2) = Inr ''iVBORw0KGgo=''
   \<and> body env_capture_fails_once (config_of None 2) (0 + 1) [''ready'']
       = Continue [''ready'']
           [Capture 1, CaptureFailed ''Screenshot failed: device offline'', Sleep 2000]
   \<and> prefix
        [Sleep 1000, Capture 1, CaptureFailed ''Screenshot failed: device offline'', Sleep 2000,
         Capture 2, Decide (context_of (config_of None 2) 2 [''ready''])]
        (trace (loop env_capture_fails_once (config_of None 2) 0 [''ready''] [Sleep 1000]))
   \<and> \<not> 0 + 1 < maxSteps (config_of None 1)
   \<and> loop env_capture_fails_once (config_of None 1) 0 [''ready''] [Sleep 1000]
       = \<lparr>result = \<lparr>success = False, reason = ''Timeout - max steps exceeded'', steps = 1\<rparr>,
          history = [''ready''],
          trace = [Sleep 1000, Capture 1, CaptureFailed ''Screenshot failed: device offline'',
                   Sleep 2000, MaxStepsReached]\<rparr>"
proof -
  have failed: "takeScreenshot env_capture_fails_once (0 + 1)
      = Inl ''Screenshot failed: device offline''"
    by (simp add: env_capture_fails_once_def scripted_def)
  have again: "takeScreenshot env_capture_fails_once (0 + 2) = Inr ''iVBORw0KGgo=''"
    by (simp add: env_capture_fails_once_def scripted_def shots_ok_def)
  have two: "0 < maxSteps (config_of None 2)" "0 + 1 < maxSteps (config_of None 2)"
    by (simp_all add: config_of_def)
  have one: "0 < maxSteps (config_of None 1)" "\<not> 0 + 1 < maxSteps (config_of None 1)"
    by (simp_all add: config_of_def)
  have retried: "body env_capture_fails_once (config_of None 2) (0 + 1) [''ready'']
       = Continue [''ready'']
           [Capture 1, CaptureFailed ''Screenshot failed: device offline'', Sleep 2000]
   \<and> prefix
        [Sleep 1000, Capture 1, CaptureFailed ''Screenshot failed: device offline'', Sleep 2000,
         Capture 2, Decide (context_of (config_of None 2) 2 [''ready''])]
        (trace (loop env_capture_fails_once (config_of None 2) 0 [''ready''] [Sleep 1000]))"
    using failed again two
      C2_capture_failure [where e = env_capture_fails_once and c = "config_of None 2" and n = 0
        and m = "''Screenshot failed: device offline''" and hist = "[''ready'']"
        and evs = "[Sleep 1000]" and shot = "''iVBORw0KGgo=''"]
    by auto
  have exhausted: "loop env_capture_fails_once (config_of None 1) 0 [''ready''] [Sleep 1000]
       = \<lparr>result = \<lparr>success = False, reason = ''Timeout - max steps exceeded'', steps = 1\<rparr>,
          history = [''ready''],
          trace = [Sleep 1000, Capture 1, CaptureFailed ''Screenshot failed: device offline'',
                   Sleep 2000, MaxStepsReached]\<rparr>"
    using failed one
      C2_capture_failure [where e = env_capture_fails_once and c = "config_of None 1" and n = 0
        and m = "''Screenshot failed: device offline''" and hist = "[''ready'']"
        and evs = "[Sleep 1000]"]
    by auto
  show ?thesis
    using failed again two one retried exhausted by simp
qed

section \<open>The translator: fallback, unknown kinds and summaries\<close>

text \<open>
  Claim C7. For a \<^verbatim>\<open>back\<close> intent whose backend call \<^verbatim>\<open>back()\<close> throws, the translator
  calls \<^verbatim>\<open>iosBackGesture()\<close> once and \<^verbatim>\<open>back()\<close> no second time, and its outcome is the
  outcome of the gesture. When \<^verbatim>\<open>back()\<close> returns, it is the only call. The flow of the
  gesture is the flow of a swipe from (1%, 50%), at the left edge, to (80%, 50%).
\<close>

theorem C7_back_fallback:
  "(runFlow exec (flow_yaml b Back) = Some m \<longrightarrow>
      executeAction exec b (d\<lparr>action := ''back''\<rparr>)
        = ([Call Back, Call IosBackGesture], runFlow exec (flow_yaml b IosBackGesture)))
   \<and> (runFlow exec (flow_yaml b Back) = None \<longrightarrow>
        executeAction exec b (d\<lparr>action := ''back''\<rparr>) = ([Call Back], None))
   \<and> flow_yaml b IosBackGesture = flow_yaml b (Swipe 1 50 80 50)"
  by (simp add: executeAction_def point_yaml_def num_str_def digit_char_def dq_def)

theorem C7_back_fallback_witness:
  "runFlow back_unsupported (flow_yaml None Back)
     = Some ''Maestro command failed: back is not supported on iOS''
   \<and> executeAction back_unsupported None (intent ''back'' None)
       = ([Call Back, Call IosBackGesture], None)
   \<and> runFlow (flows_ok 1) (flow_yaml None Back) = None
   \<and> executeAction (flows_ok 1) None (intent ''back'' None) = ([Call Back], None)"
proof -
  have fails: "runFlow back_unsupported (flow_yaml None Back)
     = Some ''Maestro command failed: back is not supported on iOS''"
    by (simp add: runFlow_def back_unsupported_def)
  have gesture: "runFlow back_unsupported (flow_yaml None IosBackGesture) = None"
    by (simp add: runFlow_def back_unsupported_def buildYamlHeader_def truthy_def nl_def dq_def)
  have works: "runFlow (flows_ok 1) (flow_yaml None Back) = None"
    by (simp add: runFlow_def flows_ok_def)
  have same: "(intent ''back'' None)\<lparr>action := ''back''\<rparr> = intent ''back'' None"
    by (simp add: intent_def)
  show ?thesis
    using fails gesture works same
      C7_back_fallback [where exec = back_unsupported and b = None and d = "intent ''back'' None"
        and m = "''Maestro command failed: back is not supported on iOS''"]
      C7_back_fallback [where exec = "flows_ok 1" and b = None and d = "intent ''back'' None"]
    by simp
qed

text \<open>
  The \<^verbatim>\<open>default\<close> branch of the translator: it is taken by every kind that is not a
  case of the \<^verbatim>\<open>switch\<close>, \<^verbatim>\<open>done\<close> and \<^verbatim>\<open>failed\<close> included.
\<close>

lemma unknown_kind_translator:
  "action d \<notin> set translator_kinds \<Longrightarrow> executeAction exec b d = ([UnknownAction (action d)], None)"
  by (simp add: translator_kinds_def executeAction_def)

lemma vocabulary_covers_translator: "set translator_kinds \<subseteq> set action_vocabulary"
  by (simp add: translator_kinds_def action_vocabulary_def)

lemma unknown_kind_format:
  "action d \<notin> set action_vocabulary \<Longrightarrow> formatAction d = action d"
  by (simp add: action_vocabulary_def formatAction_def split: option.splits)

text \<open>
  Claim C8. For a decision whose kind is outside the vocabulary the translator calls
  no backend method and does not throw: it prints the line about the unknown action
  and returns. The step ends as any other: the kind is appended to the history and the
  loop pauses 1500 ms and continues.
\<close>

theorem C8_unknown_kind:
  "action d \<notin> set action_vocabulary \<longrightarrow>
     executeAction exec b d = ([UnknownAction (action d)], None)
     \<and> (takeScreenshot e k = Inr shot \<longrightarrow> decide e shot (task c) (context_of c k hist) = Inr d \<longrightarrow>
          body e c k hist =
            Continue (hist @ [action d])
              [Capture k, Decide (context_of c k hist), Shown d, UnknownAction (action d),
               Sleep 1500])"
proof (intro impI conjI)
  assume unknown: "action d \<notin> set action_vocabulary"
  then show dispatch: "executeAction exec b d = ([UnknownAction (action d)], None)" for exec b
    using unknown_kind_translator vocabulary_covers_translator by blast
  assume "takeScreenshot e k = Inr shot" "decide e shot (task c) (context_of c k hist) = Inr d"
  moreover have "action d \<noteq> ''done''" "action d \<noteq> ''failed''"
    using unknown by (auto simp: action_vocabulary_def)
  ultimately show "body e c k hist =
            Continue (hist @ [action d])
              [Capture k, Decide (context_of c k hist), Shown d, UnknownAction (action d),
               Sleep 1500]"
    using body_dispatched [of e k shot c hist d "[UnknownAction (action d)]"]
      dispatch [of "execSync e k" "bundleId c"] unknown_kind_format [OF unknown]
    by simp
qed

theorem C8_unknown_kind_witness:
  "action (intent ''pinch'' None) \<notin> set action_vocabulary
   \<and> executeAction (flows_ok 1) None (intent ''pinch'' None) = ([UnknownAction ''pinch''], None)
   \<and> takeScreenshot env_unknown_kind 1 = Inr ''iVBORw0KGgo=''
   \<and> decide env_unknown_kind ''iVBORw0KGgo='' (task (config_of None 2))
        (context_of (config_of None 2) 1 [''ready'']) = Inr (intent ''pinch'' None)
   \<and> body env_unknown_kind (config_of None 2) 1 [''ready'']
       = Continue [''ready'', ''pinch'']
           [Capture 1, Decide (context_of (config_of None 2) 1 [''ready'']),
            Shown (intent ''pinch'' None), UnknownAction ''pinch'', Sleep 1500]"
proof -
  have unknown: "action (intent ''pinch'' None) \<notin> set action_vocabulary"
    by (simp add: intent_def action_vocabulary_def)
  have shot: "takeScreenshot env_unknown_kind 1 = Inr ''iVBORw0KGgo=''"
    by (simp add: env_unknown_kind_def scripted_def shots_ok_def)
  have dec: "decide env_unknown_kind ''iVBORw0KGgo='' (task (config_of None 2))
        (context_of (config_of None 2) 1 [''ready'']) = Inr (intent ''pinch'' None)"
    by (simp add: env_unknown_kind_def scripted_def decide_def)
  have kind: "action (intent ''pinch'' None) = ''pinch''"
    by (simp add: intent_def)
  show ?thesis
    using unknown shot dec kind
      C8_unknown_kind [where d = "intent ''pinch'' None" and exec = "flows_ok 1" and b = None
        and e = env_unknown_kind and k = 1 and shot = "''iVBORw0KGgo=''"
        and c = "config_of None 2" and hist = "[''ready'']"]
    by simp
qed

text \<open>
  Claim C10. \<^verbatim>\<open>formatAction\<close> of a decision without \<^verbatim>\<open>params\<close> is its kind. A \<^verbatim>\<open>tap\<close>
  without \<^verbatim>\<open>params\<close> is sent to the backend at (50,50) and summarised as \<^verbatim>\<open>tap\<close>, not as
  \<^verbatim>\<open>tap(50,50)\<close>, and this summary does not start with \<^verbatim>\<open>tap(\<close>. In the loop, a decision
  without \<^verbatim>\<open>params\<close> whose dispatch returns appends its kind to the history.
\<close>

theorem C10_bare_kind_in_history:
  "formatAction (d\<lparr>params := None\<rparr>) = action d
   \<and> executeAction exec b (d\<lparr>action := ''tap'', params := None\<rparr>) = invoke exec b (Tap 50 50)
   \<and> formatAction (d\<lparr>action := ''tap'', params := None\<rparr>) = ''tap''
   \<and> formatAction (d\<lparr>action := ''tap'', params := None\<rparr>) \<noteq> ''tap(50,50)''
   \<and> \<not> startsWith (formatAction (d\<lparr>action := ''tap'', params := None\<rparr>)) ''tap(''
   \<and> (takeScreenshot e k = Inr shot \<longrightarrow> decide e shot (task c) (context_of c k hist) = Inr d \<longrightarrow>
        params d = None \<longrightarrow> action d \<noteq> ''done'' \<longrightarrow> action d \<noteq> ''failed'' \<longrightarrow>
        executeAction (execSync e k) (bundleId c) d = (cs, None) \<longrightarrow>
        body e c k hist =
          Continue (hist @ [action d])
            ([Capture k, Decide (context_of c k hist), Shown d] @ cs @ [Sleep 1500]))"
proof -
  have bare: "formatAction d' = action d'" if "params d' = None" for d'
    using that by (simp add: formatAction_def)
  have "body e c k hist =
          Continue (hist @ [action d])
            ([Capture k, Decide (context_of c k hist), Shown d] @ cs @ [Sleep 1500])"
    if "takeScreenshot e k = Inr shot" "decide e shot (task c) (context_of c k hist) = Inr d"
      "params d = None" "action d \<noteq> ''done''" "action d \<noteq> ''failed''"
      "executeAction (execSync e k) (bundleId c) d = (cs, None)"
    using body_dispatched [OF that(1,2,4,5,6)] bare [OF that(3)] by simp
  then show ?thesis
    by (simp add: bare startsWith_def executeAction_def nullish_def empty_params_def)
qed

theorem C10_bare_kind_in_history_witness:
  "takeScreenshot env_bare_tap 1 = Inr ''iVBORw0KGgo=''
   \<and> decide env_bare_tap ''iVBORw0KGgo='' (task (config_of None 2))
        (context_of (config_of None 2) 1 [''ready'']) = Inr (intent ''tap'' None)
   \<and> params (intent ''tap'' None) = None
   \<and> executeAction (execSync env_bare_tap 1) (bundleId (config_of None 2)) (intent ''tap'' None)
       = ([Call (Tap 50 50)], None)
   \<and> body env_bare_tap (config_of None 2) 1 [''ready'']
       = Continue [''ready'', ''tap'']
           [Capture 1, Decide (context_of (config_of None 2) 1 [''ready'']),
            Shown (intent ''tap'' None), Call (Tap 50 50), Sleep 1500]"
proof -
  have shot: "takeScreenshot env_bare_tap 1 = Inr ''iVBORw0KGgo=''"
    by (simp add: env_bare_tap_def scripted_def shots_ok_def)
  have dec: "decide env_bare_tap ''iVBORw0KGgo='' (task (config_of None 2))
        (context_of (config_of None 2) 1 [''ready'']) = Inr (intent ''tap'' None)"
    by (simp add: env_bare_tap_def scripted_def decide_def)
  have kind: "params (intent ''tap'' None) = None" "action (intent ''tap'' None) = ''tap''"
    by (simp_all add: intent_def)
  have disp: "executeAction (execSync env_bare_tap 1) (bundleId (config_of None 2))
      (intent ''tap'' None) = ([Call (Tap 50 50)], None)"
    by (simp add: env_bare_tap_def run_eval)
  show ?thesis
    using shot dec kind disp
      C10_bare_kind_in_history [where d = "intent ''tap'' None" and e = env_bare_tap and k = 1
        and shot = "''iVBORw0KGgo=''" and c = "config_of None 2" and hist = "[''ready'']"
        and cs = "[Call (Tap 50 50)]"]
    by simp
qed

text \<open>
  A run of bare taps: the history holds \<^verbatim>\<open>tap\<close>, and two such entries among the last
  three raise no hint, where two entries \<^verbatim>\<open>tap(50,50)\<close> would raise the mild one.
\<close>

lemma bare_taps_run:
  "history (execute env_bare_tap (config_of None 2)) = [''ready'', ''tap'', ''tap'']
   \<and> detectStuckPattern [''ready'', ''tap'', ''tap''] = None
   \<and> detectStuckPattern [''ready'', ''tap(50,50)'', ''tap(50,50)''] = Some mild_hint"
  by (simp add: env_bare_tap_def run_eval detectStuckPattern_def startsWith_def)

section \<open>Rationale and progress estimate are observational\<close>

lemma backend_calls_simps:
  "backend_calls [] = []"
  "backend_calls (ev # evs) = (if is_backend ev then [ev] else []) @ backend_calls evs"
  "backend_calls (xs @ ys) = backend_calls xs @ backend_calls ys"
  by (simp_all add: backend_calls_def)

lemma same_intent_dispatch:
  "same_intent d d' \<Longrightarrow> executeAction exec b d = executeAction exec b d'"
  by (simp add: same_intent_def executeAction_def)

lemma same_intent_format: "same_intent d d' \<Longrightarrow> formatAction d = formatAction d'"
  by (simp add: same_intent_def formatAction_def Let_def split: option.splits)

lemma same_answer_cases:
  assumes "same_answer r r'"
  obtains (error) m where "r = Inl m" "r' = Inl m"
  | (decision) d d' where "r = Inr d" "r' = Inr d'" "same_intent d d'"
  using assms by (auto simp: same_answer_def split: sum.splits)

text \<open>
  Two environments with the same backend whose oracles give answers that differ in
  \<^verbatim>\<open>reasoning\<close> and \<^verbatim>\<open>progress\<close> at most: one pass through the body has the same kind of
  outcome in both, with the same history and the same backend calls.
\<close>

lemma body_sim:
  assumes flows: "execSync e1 = execSync e2"
    and shots: "takeScreenshot e1 = takeScreenshot e2"
    and answers: "\<And>t ctx shot u. same_answer (generate e1 t ctx shot u) (generate e2 t ctx shot u)"
  shows "(\<exists>h' new1 new2. body e1 c k hist = Continue h' new1 \<and> body e2 c k hist = Continue h' new2
            \<and> backend_calls new1 = backend_calls new2)
    \<or> (\<exists>r1 r2 new1 new2. body e1 c k hist = Return r1 new1 \<and> body e2 c k hist = Return r2 new2
            \<and> steps r1 = steps r2 \<and> success r1 = success r2
            \<and> backend_calls new1 = backend_calls new2)"
proof (cases "takeScreenshot e1 k")
  case (Inl m)
  then have "takeScreenshot e2 k = Inl m" using shots by simp
  then show ?thesis using Inl by (simp add: body_def)
next
  case shot1: (Inr shot)
  then have shot2: "takeScreenshot e2 k = Inr shot" using shots by simp
  have "same_answer (decide e1 shot (task c) (context_of c k hist))
      (decide e2 shot (task c) (context_of c k hist))"
    using answers by (simp add: decide_def)
  then show ?thesis
  proof (cases rule: same_answer_cases)
    case (error m)
    then show ?thesis using shot1 shot2 by (simp add: body_def backend_calls_simps is_backend_def)
  next
    case (decision d d')
    have kind: "action d' = action d"
      using decision(3) by (simp add: same_intent_def)
    obtain cs res where disp: "executeAction (execSync e1 k) (bundleId c) d = (cs, res)"
      by (cases "executeAction (execSync e1 k) (bundleId c) d")
    then have disp': "executeAction (execSync e2 k) (bundleId c) d' = (cs, res)"
      using same_intent_dispatch [OF decision(3)] flows by simp
    show ?thesis
      using shot1 shot2 decision(1,2) kind disp disp' same_intent_format [OF decision(3)]
      by (cases res) (auto simp: body_def Let_def backend_calls_simps is_backend_def)
  qed
qed

lemma loop_sim:
  assumes flows: "execSync e1 = execSync e2"
    and shots: "takeScreenshot e1 = takeScreenshot e2"
    and answers: "\<And>t ctx shot u. same_answer (generate e1 t ctx shot u) (generate e2 t ctx shot u)"
    and before: "backend_calls evs1 = backend_calls evs2"
  shows "backend_calls (trace (loop e1 c n hist evs1)) = backend_calls (trace (loop e2 c n hist evs2))
    \<and> steps (result (loop e1 c n hist evs1)) = steps (result (loop e2 c n hist evs2))
    \<and> success (result (loop e1 c n hist evs1)) = success (result (loop e2 c n hist evs2))
    \<and> history (loop e1 c n hist evs1) = history (loop e2 c n hist evs2)"
  using before
proof (induction "nat (maxSteps c - n)" arbitrary: n hist evs1 evs2)
  case 0
  then have stop: "\<not> n < maxSteps c" by simp
  show ?case
    using "0.prems" loop_exit [OF stop, of e1] loop_exit [OF stop, of e2]
    by (simp add: backend_calls_simps is_backend_def)
next
  case (Suc j)
  then have go: "n < maxSteps c" by simp
  have measure: "j = nat (maxSteps c - (n + 1))" using Suc.hyps(2) by simp
  from body_sim [OF flows shots answers, of c "n + 1" hist] show ?case
  proof (elim disjE exE conjE)
    fix h' new1 new2
    assume pass: "body e1 c (n + 1) hist = Continue h' new1"
      "body e2 c (n + 1) hist = Continue h' new2" "backend_calls new1 = backend_calls new2"
    have "backend_calls (evs1 @ new1) = backend_calls (evs2 @ new2)"
      using Suc.prems pass(3) by (simp add: backend_calls_simps)
    then show ?thesis
      using Suc.hyps(1) [OF measure] loop_Continue [OF go pass(1)] loop_Continue [OF go pass(2)]
      by simp
  next
    fix r1 r2 new1 new2
    assume pass: "body e1 c (n + 1) hist = Return r1 new1"
      "body e2 c (n + 1) hist = Return r2 new2" "steps r1 = steps r2" "success r1 = success r2"
      "backend_calls new1 = backend_calls new2"
    show ?thesis
      using Suc.prems pass(3,4,5) loop_Return [OF go pass(1)] loop_Return [OF go pass(2)]
      by (simp add: backend_calls_simps)
  qed
qed

text \<open>
  Claim C9. Take two runs on the same configuration and the same backend, whose oracles
  answer every request with the same error or with decisions of the same kind and
  parameters (\<^verbatim>\<open>reasoning\<close> and \<^verbatim>\<open>progress\<close> may differ). Then the two runs issue the same
  sequence of backend calls (methods and captures), return the same \<^verbatim>\<open>steps\<close> and the same
  \<^verbatim>\<open>success\<close>, and leave the same history.
\<close>

theorem C9_rationale_and_progress_observational:
  "execSync e1 = execSync e2 \<longrightarrow> takeScreenshot e1 = takeScreenshot e2 \<longrightarrow>
   (\<forall>t ctx shot u. same_answer (generate e1 t ctx shot u) (generate e2 t ctx shot u)) \<longrightarrow>
     backend_calls (trace (execute e1 c)) = backend_calls (trace (execute e2 c))
     \<and> steps (result (execute e1 c)) = steps (result (execute e2 c))
     \<and> success (result (execute e1 c)) = success (result (execute e2 c))
     \<and> history (execute e1 c) = history (execute e2 c)"
proof (intro impI)
  assume flows: "execSync e1 = execSync e2" and shots: "takeScreenshot e1 = takeScreenshot e2"
    and answers: "\<forall>t ctx shot u. same_answer (generate e1 t ctx shot u) (generate e2 t ctx shot u)"
  have sim: "backend_calls (trace (loop e1 c 0 h evs)) = backend_calls (trace (loop e2 c 0 h evs))
    \<and> steps (result (loop e1 c 0 h evs)) = steps (result (loop e2 c 0 h evs))
    \<and> success (result (loop e1 c 0 h evs)) = success (result (loop e2 c 0 h evs))
    \<and> history (loop e1 c 0 h evs) = history (loop e2 c 0 h evs)" for h evs
    using loop_sim [OF flows shots, of evs evs c 0 h] answers by simp
  show "backend_calls (trace (execute e1 c)) = backend_calls (trace (execute e2 c))
     \<and> steps (result (execute e1 c)) = steps (result (execute e2 c))
     \<and> success (result (execute e1 c)) = success (result (execute e2 c))
     \<and> history (execute e1 c) = history (execute e2 c)"
    using sim flows by (simp add: execute_def split: option.splits)
qed

theorem C9_rationale_and_progress_observational_witness:
  "execSync env_tap_done = execSync env_tap_done_reworded
   \<and> takeScreenshot env_tap_done = takeScreenshot env_tap_done_reworded
   \<and> (\<forall>t ctx shot u. same_answer (generate env_tap_done t ctx shot u)
          (generate env_tap_done_reworded t ctx shot u))
   \<and> generate env_tap_done ''tap button'' (context_of (config_of None 3) 1 [''ready''])
        ''iVBORw0KGgo='' [] \<noteq>
      generate env_tap_done_reworded ''tap button'' (context_of (config_of None 3) 1 [''ready''])
        ''iVBORw0KGgo='' []
   \<and> backend_calls (trace (execute env_tap_done (config_of None 3)))
       = [Capture 1, Call (Tap 80 80), Capture 2]
   \<and> backend_calls (trace (execute env_tap_done_reworded (config_of None 3)))
       = [Capture 1, Call (Tap 80 80), Capture 2]
   \<and> steps (result (execute env_tap_done_reworded (config_of None 3))) = 2
   \<and> success (result (execute env_tap_done_reworded (config_of None 3)))"
proof -
  have flows: "execSync env_tap_done = execSync env_tap_done_reworded"
    by (simp add: env_tap_done_def env_tap_done_reworded_def scripted_def)
  have shots: "takeScreenshot env_tap_done = takeScreenshot env_tap_done_reworded"
    by (simp add: env_tap_done_def env_tap_done_reworded_def scripted_def)
  have answers: "\<forall>t ctx shot u. same_answer (generate env_tap_done t ctx shot u)
          (generate env_tap_done_reworded t ctx shot u)"
    by (simp add: env_tap_done_def env_tap_done_reworded_def scripted_def same_answer_def
        same_intent_def intent_def)
  have differ: "generate env_tap_done ''tap button'' (context_of (config_of None 3) 1 [''ready''])
        ''iVBORw0KGgo='' [] \<noteq>
      generate env_tap_done_reworded ''tap button'' (context_of (config_of None 3) 1 [''ready''])
        ''iVBORw0KGgo='' []"
    by (simp add: env_tap_done_def env_tap_done_reworded_def scripted_def intent_def context_of_def)
  have run: "backend_calls (trace (execute env_tap_done (config_of None 3)))
       = [Capture 1, Call (Tap 80 80), Capture 2]
     \<and> steps (result (execute env_tap_done (config_of None 3))) = 2
     \<and> success (result (execute env_tap_done (config_of None 3)))"
    by (simp add: env_tap_done_def run_eval backend_calls_simps is_backend_def)
  show ?thesis
    using flows shots answers differ run
      C9_rationale_and_progress_observational
        [where ?e1.0 = env_tap_done and ?e2.0 = env_tap_done_reworded and c = "config_of None 3"]
    by simp
qed

end
